theory Spec2Isabelle
  imports Main "HOL-Library.Word" "HOL-Library.AList"
begin

unbundle bit_operations_syntax

text \<open>
  A shallow embedding of proxy-node (Go): the SOCKS5 client of package \<^verbatim>\<open>proxy\<close>, the process
  supervisor of package \<^verbatim>\<open>core\<close>, and the relay meter and speed harness of the main package.

  Conventions.  A Go \<^verbatim>\<open>string\<close> and a \<^verbatim>\<open>[]byte\<close> that holds text are a \<open>string\<close> (a list of
  8-bit characters); bytes on the wire are \<open>8 word\<close>; \<^verbatim>\<open>int\<close> values that stay far from
  the machine bounds are \<open>int\<close>; the \<^verbatim>\<open>atomic.Uint64\<close> counters are \<open>64 word\<close>.  Errors
  are values of a datatype per function.  Everything a function does to the outside world
  (a connection, the file system, a response body) is explicit state that is passed in and
  returned.  Wall-clock time (deadlines, elapsed time) is not modelled: an expired deadline
  is the failure of the read or write on which it strikes.
\<close>

type_synonym byte = "8 word"

section \<open>Go standard library functions\<close>

text \<open>
  The functions of the Go standard library that the repository calls are modelled here from
  their documented behaviour; the repository's own code starts in the section on the SOCKS5
  client.
\<close>

subsection \<open>\<^verbatim>\<open>strings\<close>\<close>

text \<open>
  \<^verbatim>\<open>strings.IndexByte\<close> and \<^verbatim>\<open>strings.LastIndexByte\<close>: the index of the first and of the last
  occurrence of a byte, \<open>None\<close> for Go's \<^verbatim>\<open>-1\<close>.
\<close>

fun IndexByte :: "string \<Rightarrow> char \<Rightarrow> nat option" where
  "IndexByte [] c = None"
| "IndexByte (x # xs) c = (if x = c then Some 0 else map_option Suc (IndexByte xs c))"

definition LastIndexByte :: "string \<Rightarrow> char \<Rightarrow> nat option" where
  "LastIndexByte s c = map_option (\<lambda>i. length s - 1 - i) (IndexByte (rev s) c)"

text \<open>
  \<^verbatim>\<open>strings.TrimSpace\<close> removes all leading and trailing white space, as Unicode defines it,
  from a UTF-8 string.  The white space code points are the six ASCII ones (tab, line feed,
  vertical tab, form feed, carriage return, space), \<^verbatim>\<open>U+0085\<close> and \<^verbatim>\<open>U+00A0\<close> (two bytes
  each in UTF-8), and \<^verbatim>\<open>U+1680\<close>, \<^verbatim>\<open>U+2000\<close>..\<^verbatim>\<open>U+200A\<close>, \<^verbatim>\<open>U+2028\<close>, \<^verbatim>\<open>U+2029\<close>, \<^verbatim>\<open>U+202F\<close>,
  \<^verbatim>\<open>U+205F\<close>, \<^verbatim>\<open>U+3000\<close> (three bytes each).  Any other byte sequence, also an invalid one,
  is not white space and stops the trimming.
\<close>

definition asciiSpace :: "char \<Rightarrow> bool" where
  "asciiSpace c =
     (c = CHR 0x09 \<or> c = CHR 0x0A \<or> c = CHR 0x0B \<or> c = CHR 0x0C \<or> c = CHR 0x0D \<or> c = CHR '' '')"

definition spaceRune2 :: "char \<Rightarrow> char \<Rightarrow> bool" where
  "spaceRune2 a b = (a = CHR 0xC2 \<and> (b = CHR 0x85 \<or> b = CHR 0xA0))"

definition spaceRune3 :: "char \<Rightarrow> char \<Rightarrow> char \<Rightarrow> bool" where
  "spaceRune3 a b c =
     ((a = CHR 0xE1 \<and> b = CHR 0x9A \<and> c = CHR 0x80)
    \<or> (a = CHR 0xE2 \<and> b = CHR 0x80
         \<and> (0x80 \<le> (of_char c :: nat) \<and> (of_char c :: nat) \<le> 0x8A
            \<or> c = CHR 0xA8 \<or> c = CHR 0xA9 \<or> c = CHR 0xAF))
    \<or> (a = CHR 0xE2 \<and> b = CHR 0x81 \<and> c = CHR 0x9F)
    \<or> (a = CHR 0xE3 \<and> b = CHR 0x80 \<and> c = CHR 0x80))"

fun TrimLeftSpace :: "string \<Rightarrow> string" where
  "TrimLeftSpace (a # b # c # s) =
     (if asciiSpace a then TrimLeftSpace (b # c # s)
      else if spaceRune2 a b then TrimLeftSpace (c # s)
      else if spaceRune3 a b c then TrimLeftSpace s
      else a # b # c # s)"
| "TrimLeftSpace [a, b] =
     (if asciiSpace a then TrimLeftSpace [b]
      else if spaceRune2 a b then []
      else [a, b])"
| "TrimLeftSpace [a] = (if asciiSpace a then [] else [a])"
| "TrimLeftSpace [] = []"

text \<open>Trimming on the right, on the reversed string: \<open>c\<close> is the last byte, \<open>b\<close> the one before.\<close>

fun TrimRightSpaceRev :: "string \<Rightarrow> string" where
  "TrimRightSpaceRev (c # b # a # s) =
     (if asciiSpace c then TrimRightSpaceRev (b # a # s)
      else if spaceRune2 b c then TrimRightSpaceRev (a # s)
      else if spaceRune3 a b c then TrimRightSpaceRev s
      else c # b # a # s)"
| "TrimRightSpaceRev [c, b] =
     (if asciiSpace c then TrimRightSpaceRev [b]
      else if spaceRune2 b c then []
      else [c, b])"
| "TrimRightSpaceRev [c] = (if asciiSpace c then [] else [c])"
| "TrimRightSpaceRev [] = []"

definition TrimSpace :: "string \<Rightarrow> string" where
  "TrimSpace s = rev (TrimRightSpaceRev (rev (TrimLeftSpace s)))"

subsection \<open>\<^verbatim>\<open>net\<close>, \<^verbatim>\<open>strconv\<close>, \<^verbatim>\<open>encoding/binary\<close>\<close>

text \<open>
  \<^verbatim>\<open>net.SplitHostPort\<close>: the port starts after the last colon; a host in square brackets
  must end right before that colon; a host without brackets must not contain a colon; no
  other bracket may occur.  \<open>None\<close> is any of its errors.
\<close>

definition SplitHostPort :: "string \<Rightarrow> (string \<times> string) option" where
  "SplitHostPort hostport =
     (case LastIndexByte hostport CHR '':'' of
        None \<Rightarrow> None
      | Some i \<Rightarrow>
          if take 1 hostport = ''[''
          then (case IndexByte hostport CHR '']'' of
                  None \<Rightarrow> None
                | Some end \<Rightarrow>
                    if end + 1 = length hostport then None
                    else if end + 1 = i then
                      (if IndexByte (drop 1 hostport) CHR ''['' \<noteq> None then None
                       else if IndexByte (drop (end + 1) hostport) CHR '']'' \<noteq> None then None
                       else Some (take (end - 1) (drop 1 hostport), drop (i + 1) hostport))
                    else None)
          else
            (if IndexByte (take i hostport) CHR '':'' \<noteq> None then None
             else if IndexByte hostport CHR ''['' \<noteq> None then None
             else if IndexByte hostport CHR '']'' \<noteq> None then None
             else Some (take i hostport, drop (i + 1) hostport)))"

text \<open>
  \<^verbatim>\<open>strconv.Atoi\<close>: an optional sign followed by at least one decimal digit and nothing
  else; \<open>None\<close> for a syntax error and for a value outside the 64-bit \<^verbatim>\<open>int\<close>.
\<close>

definition isDigit :: "char \<Rightarrow> bool" where
  "isDigit c = (48 \<le> (of_char c :: nat) \<and> (of_char c :: nat) \<le> 57)"

definition digitVal :: "char \<Rightarrow> nat" where
  "digitVal c = of_char c - 48"

fun parseDigits :: "string \<Rightarrow> nat \<Rightarrow> nat option" where
  "parseDigits [] acc = Some acc"
| "parseDigits (c # cs) acc = (if isDigit c then parseDigits cs (acc * 10 + digitVal c) else None)"

definition Atoi :: "string \<Rightarrow> int option" where
  "Atoi s =
     (let (neg, ds) = (case s of
                         [] \<Rightarrow> (False, [])
                       | c # cs \<Rightarrow> if c = CHR ''-'' then (True, cs)
                                   else if c = CHR ''+'' then (False, cs) else (False, s))
      in if ds = [] then None
         else (case parseDigits ds 0 of
                 None \<Rightarrow> None
               | Some n \<Rightarrow>
                   let v = (if neg then - int n else int n)
                   in if v < - (2 ^ 63) \<or> 2 ^ 63 - 1 < v then None else Some v))"

text \<open>
  The dotted-decimal parser behind \<^verbatim>\<open>net.ParseIP\<close>: four fields separated by single dots,
  each a decimal number of at most 255 without a leading zero.  \<open>prev\<close> is the byte before
  the current one, \<open>val\<close> and \<open>digLen\<close> the value and the number of digits of the field being
  read, \<open>fs\<close> the fields completed so far.
\<close>

fun parseIPv4Fields :: "string \<Rightarrow> char option \<Rightarrow> nat \<Rightarrow> nat \<Rightarrow> byte list \<Rightarrow> byte list option" where
  "parseIPv4Fields [] prev val digLen fs =
     (if length fs < 3 then None else Some (fs @ [of_nat val]))"
| "parseIPv4Fields (c # cs) prev val digLen fs =
     (if isDigit c then
        (if digLen = 1 \<and> val = 0 then None
         else let val' = val * 10 + digitVal c
              in if val' > 255 then None else parseIPv4Fields cs (Some c) val' (digLen + 1) fs)
      else if c = CHR ''.'' then
        (if prev = None \<or> cs = [] \<or> prev = Some CHR ''.'' then None
         else if length fs = 3 then None
         else parseIPv4Fields cs (Some c) 0 0 (fs @ [of_nat val]))
      else None)"

definition parseIPv4 :: "string \<Rightarrow> byte list option" where
  "parseIPv4 s = parseIPv4Fields s None 0 0 []"

definition v4InV6Prefix :: "byte list" where
  "v4InV6Prefix = [0, 0, 0, 0, 0, 0, 0, 0, 0, 0, 0xff, 0xff]"

text \<open>
  \<^verbatim>\<open>net.ParseIP\<close> looks for the first dot, colon or percent sign: a dot sends the string to
  the dotted-decimal parser, a colon to the IPv6 text parser, and it returns the address in
  its 16-byte form, \<open>None\<close> for Go's \<^verbatim>\<open>nil\<close>.  The IPv6 text parser is a parameter,
  \<open>parseIPv6\<close>: every statement below holds whatever it returns.
\<close>

definition ParseIP :: "(string \<Rightarrow> byte list option) \<Rightarrow> string \<Rightarrow> byte list option" where
  "ParseIP parseIPv6 s =
     (case find (\<lambda>c. c = CHR ''.'' \<or> c = CHR '':'' \<or> c = CHR ''%'') s of
        None \<Rightarrow> None
      | Some c \<Rightarrow>
          if c = CHR ''.'' then map_option (\<lambda>b. v4InV6Prefix @ b) (parseIPv4 s)
          else if c = CHR '':'' then parseIPv6 s
          else None)"

text \<open>\<^verbatim>\<open>IP.To4\<close> and \<^verbatim>\<open>IP.To16\<close>: the 4-byte and the 16-byte form of an address, if it has one.\<close>

definition To4 :: "byte list \<Rightarrow> byte list option" where
  "To4 ip =
     (if length ip = 4 then Some ip
      else if length ip = 16 \<and> take 12 ip = v4InV6Prefix then Some (drop 12 ip)
      else None)"

definition To16 :: "byte list \<Rightarrow> byte list option" where
  "To16 ip =
     (if length ip = 4 then Some (v4InV6Prefix @ ip)
      else if length ip = 16 then Some ip
      else None)"

text \<open>\<^verbatim>\<open>binary.BigEndian.PutUint16\<close>: the high byte first.\<close>

definition PutUint16 :: "16 word \<Rightarrow> byte list" where
  "PutUint16 v = [ucast (drop_bit 8 v), ucast v]"

section \<open>Connections and buffered readers\<close>

text \<open>
  A \<^verbatim>\<open>net.Conn\<close>, seen from the client.  \<open>incoming\<close> are the bytes the peer sends, in the
  chunks in which \<^verbatim>\<open>Read\<close> will deliver them; once they are used up a \<^verbatim>\<open>Read\<close> fails (the
  peer has closed, or the deadline has passed).  \<open>written\<close> are the buffers handed to
  \<^verbatim>\<open>Write\<close>, one entry per call.  \<open>wfail = Some i\<close> makes the \<open>i\<close>-th call of \<^verbatim>\<open>Write\<close>
  (counted from 0) return an error.  \<open>closed\<close> records \<^verbatim>\<open>Close\<close>.
\<close>

record conn =
  incoming :: "byte list list"
  wfail :: "nat option"
  written :: "byte list list"
  closed :: bool

definition conn_Write :: "byte list \<Rightarrow> conn \<Rightarrow> bool \<times> conn" where
  "conn_Write p c = (wfail c = Some (length (written c)), c\<lparr>written := written c @ [p]\<rparr>)"

text \<open>
  \<^verbatim>\<open>Read\<close> into a buffer of \<open>n\<close> bytes returns what is left of the current chunk, at most
  \<open>n\<close> bytes of it; the result is the data and whether an error came with it.  A chunk
  without bytes delivers nothing and is passed over: a read on a connection waits for data.
\<close>

fun read_chunks :: "nat \<Rightarrow> byte list list \<Rightarrow> (byte list \<times> bool) \<times> byte list list" where
  "read_chunks n [] = (([], True), [])"
| "read_chunks n ([] # rest) = read_chunks n rest"
| "read_chunks n (ch # rest) =
     ((take n ch, False), if n < length ch then drop n ch # rest else rest)"

definition conn_Read :: "nat \<Rightarrow> conn \<Rightarrow> (byte list \<times> bool) \<times> conn" where
  "conn_Read n c = (case read_chunks n (incoming c) of (r, chunks) \<Rightarrow> (r, c\<lparr>incoming := chunks\<rparr>))"

definition conn_Close :: "conn \<Rightarrow> conn" where
  "conn_Close c = c\<lparr>closed := True\<rparr>"

text \<open>
  A \<^verbatim>\<open>bufio.Reader\<close> on a connection: the connection and the bytes that were read from it
  but not yet handed out.  With an empty buffer, \<^verbatim>\<open>Read\<close> and \<^verbatim>\<open>ReadByte\<close> fill the buffer
  with one \<^verbatim>\<open>Read\<close> of up to 4096 bytes from the connection (a request of 4096 bytes or
  more goes to the connection directly).
\<close>

type_synonym bufio_Reader = "conn \<times> byte list"

definition defaultBufSize :: nat where
  "defaultBufSize = 4096"

definition br_Read :: "nat \<Rightarrow> bufio_Reader \<Rightarrow> (byte list \<times> bool) \<times> bufio_Reader" where
  "br_Read n br =
     (case br of (c, buf) \<Rightarrow>
        if n = 0 then (([], False), br)
        else if buf \<noteq> [] then ((take n buf, False), (c, drop n buf))
        else if defaultBufSize \<le> n then (case conn_Read n c of (r, c') \<Rightarrow> (r, (c', [])))
        else (case conn_Read defaultBufSize c of
                ((d, e), c') \<Rightarrow>
                  if d = [] then (([], e), (c', []))
                  else ((take n d, False), (c', drop n d))))"

definition br_ReadByte :: "bufio_Reader \<Rightarrow> byte option \<times> bufio_Reader" where
  "br_ReadByte br =
     (case br of (c, buf) \<Rightarrow>
        (case buf of
           x # xs \<Rightarrow> (Some x, (c, xs))
         | [] \<Rightarrow> (case conn_Read defaultBufSize c of
                    ((d, e), c') \<Rightarrow>
                      (case d of [] \<Rightarrow> (None, (c', [])) | x # xs \<Rightarrow> (Some x, (c', xs))))))"

section \<open>The SOCKS5 client\<close>

text \<open>
  \<^verbatim>\<open>readFull\<close> (socks5.go) calls \<^verbatim>\<open>Read\<close> until the buffer is full or a call returns an
  error.  It takes any reader, so the reader is a parameter \<open>r\<close>; \<open>need\<close> is the part of the
  buffer still to fill, \<open>b\<close> the part filled so far.  The loop runs for ever on a reader
  that keeps returning no bytes and no error, so the function is partial: \<open>None\<close> is
  "does not return".

  \<^verbatim>\<open>
  func readFull(r interface{ Read([]byte) (int, error) }, b []byte) (int, error) {
      n := 0
      for n < len(b) {
          k, err := r.Read(b[n:])
          n += k
          if err != nil { return n, err }
      }
      return n, nil
  }
  \<close>
\<close>

partial_function (option) readFull ::
  "(nat \<Rightarrow> 's \<Rightarrow> (byte list \<times> bool) \<times> 's) \<Rightarrow> nat \<Rightarrow> byte list \<Rightarrow> 's
     \<Rightarrow> ((byte list \<times> bool) \<times> 's) option"
where
  "readFull r need b s =
     (if need = 0 then Some ((b, False), s)
      else (case r need s of
              ((d, e), s') \<Rightarrow>
                if e then Some ((b @ d, True), s')
                else readFull r (need - length d) (b @ d) s'))"

declare readFull.simps [code]

text \<open>
  The errors of \<^verbatim>\<open>DialSocks5\<close>, one constructor per error message of the source, in the
  order in which the source can return them: \<^verbatim>\<open>dial socks server\<close>, \<^verbatim>\<open>socks greeting write\<close>,
  \<^verbatim>\<open>socks greeting read\<close>, \<^verbatim>\<open>socks auth negotiation failed\<close>, \<^verbatim>\<open>target addr parse\<close>,
  \<^verbatim>\<open>target port is invalid\<close>, \<^verbatim>\<open>target host is invalid\<close>, \<^verbatim>\<open>socks connect write\<close>,
  \<^verbatim>\<open>socks connect read\<close>, \<^verbatim>\<open>invalid socks version in reply\<close>,
  \<^verbatim>\<open>socks connect failed, code=0x..\<close> (with the status byte), \<^verbatim>\<open>socks reply domain len read\<close>,
  \<^verbatim>\<open>socks reply had unknown address type\<close>, \<^verbatim>\<open>socks reply tail read\<close>.
\<close>

datatype dial_error =
    DialSocksServer
  | GreetingWrite
  | GreetingRead
  | AuthNegotiationFailed
  | TargetAddrParse
  | TargetPortInvalid
  | TargetHostInvalid
  | ConnectWrite
  | ConnectRead
  | InvalidVersionInReply
  | ConnectFailed byte
  | ReplyDomainLenRead
  | UnknownAddressType
  | ReplyTailRead

text \<open>
  What a call of \<^verbatim>\<open>DialSocks5\<close> leaves behind: the error (\<open>None\<close> for \<^verbatim>\<open>nil\<close>), the
  connection in its final state (\<open>None\<close> when dialling failed and there never was one;
  on success it is the connection returned to the caller), and the bytes that the
  function's local buffered reader had read from the connection but not handed out when
  the function returned and the reader was dropped.
\<close>

record dial_result =
  err :: "dial_error option"
  conn_state :: "conn option"
  br_dropped :: "byte list"

text \<open>Every error return after dialling is preceded by \<^verbatim>\<open>_ = conn.Close()\<close>.\<close>

definition failed :: "dial_error \<Rightarrow> conn \<Rightarrow> byte list \<Rightarrow> dial_result" where
  "failed e c buf = \<lparr>err = Some e, conn_state = Some (conn_Close c), br_dropped = buf\<rparr>"

text \<open>
  The part of \<^verbatim>\<open>DialSocks5\<close> that turns the target address into the CONNECT request
  (from \<^verbatim>\<open>net.SplitHostPort(targetAddr)\<close> to \<^verbatim>\<open>req = append(req, pb...)\<close>); it does not touch
  the connection.
\<close>

definition connectRequest :: "(string \<Rightarrow> byte list option) \<Rightarrow> string \<Rightarrow> dial_error + byte list" where
  "connectRequest parseIPv6 targetAddr =
     (case SplitHostPort targetAddr of
        None \<Rightarrow> Inl TargetAddrParse
      | Some (host, portStr) \<Rightarrow>
          (case Atoi portStr of
             None \<Rightarrow> Inl TargetPortInvalid
           | Some port \<Rightarrow>
               if port < 1 \<or> 65535 < port then Inl TargetPortInvalid
               else
                 (let req = [0x05, 0x01, 0x00];
                      ip = ParseIP parseIPv6 host;
                      pb = PutUint16 (of_int port)
                  in case Option.bind ip To4 of
                       Some ip4 \<Rightarrow> Inr (req @ [0x01] @ ip4 @ pb)
                     | None \<Rightarrow>
                         (case Option.bind ip To16 of
                            Some ip16 \<Rightarrow> Inr (req @ [0x04] @ ip16 @ pb)
                          | None \<Rightarrow>
                              (let host' = TrimSpace host
                               in if length host' = 0 \<or> 255 < length host'
                                  then Inl TargetHostInvalid
                                  else Inr (req @ [0x03, of_nat (length host')]
                                              @ map of_char host' @ pb))))))"

text \<open>
  The end of \<^verbatim>\<open>DialSocks5\<close>: \<^verbatim>\<open>trash := make([]byte, skip+2)\<close>, filled through the buffered
  reader and thrown away, then the successful return.
\<close>

definition discardTail :: "nat \<Rightarrow> bufio_Reader \<Rightarrow> dial_result option" where
  "discardTail skip br =
     (case readFull br_Read (skip + 2) [] br of
        None \<Rightarrow> None
      | Some ((trash, rerr), (c, buf)) \<Rightarrow>
          if rerr then Some (failed ReplyTailRead c buf)
          else Some \<lparr>err = None, conn_state = Some c, br_dropped = buf\<rparr>)"

text \<open>
  The reply stage of \<^verbatim>\<open>DialSocks5\<close>, from \<^verbatim>\<open>br := bufio.NewReader(conn)\<close> on: the 4-byte
  header, the version and status checks, and the \<^verbatim>\<open>switch head[3]\<close> that sets \<^verbatim>\<open>skip\<close>.
\<close>

definition readReply :: "bufio_Reader \<Rightarrow> dial_result option" where
  "readReply br =
     (case readFull br_Read 4 [] br of
        None \<Rightarrow> None
      | Some ((head, rerr), (c, buf)) \<Rightarrow>
          if rerr then Some (failed ConnectRead c buf)
          else if head ! 0 \<noteq> 0x05 then Some (failed InvalidVersionInReply c buf)
          else if head ! 1 \<noteq> 0x00 then Some (failed (ConnectFailed (head ! 1)) c buf)
          else if head ! 3 = 0x01 then discardTail 4 (c, buf)
          else if head ! 3 = 0x04 then discardTail 16 (c, buf)
          else if head ! 3 = 0x03 then
            (case br_ReadByte (c, buf) of
               (None, (c', buf')) \<Rightarrow> Some (failed ReplyDomainLenRead c' buf')
             | (Some l, br') \<Rightarrow> discardTail (unat l) br')
          else Some (failed UnknownAddressType c buf))"

text \<open>
  \<^verbatim>\<open>DialSocks5(ctx, socksAddr, targetAddr, timeout)\<close>.  \<open>dial\<close> is the outcome of
  \<^verbatim>\<open>d.DialContext(ctx, "tcp", socksAddr)\<close>: the new connection, or \<open>None\<close> for an error.
  The greeting reply is read from the connection itself, the CONNECT reply through a
  buffered reader created after the request is written.
\<close>

definition DialSocks5 ::
  "(string \<Rightarrow> byte list option) \<Rightarrow> conn option \<Rightarrow> string \<Rightarrow> dial_result option" where
  "DialSocks5 parseIPv6 dial targetAddr =
     (case dial of
        None \<Rightarrow> Some \<lparr>err = Some DialSocksServer, conn_state = None, br_dropped = []\<rparr>
      | Some conn0 \<Rightarrow>
          (case conn_Write [0x05, 0x01, 0x00] conn0 of
             (werr, conn1) \<Rightarrow>
               if werr then Some (failed GreetingWrite conn1 [])
               else
                 (case readFull conn_Read 2 [] conn1 of
                    None \<Rightarrow> None
                  | Some ((resp, rerr), conn2) \<Rightarrow>
                      if rerr then Some (failed GreetingRead conn2 [])
                      else if resp ! 0 \<noteq> 0x05 \<or> resp ! 1 \<noteq> 0x00
                        then Some (failed AuthNegotiationFailed conn2 [])
                      else
                        (case connectRequest parseIPv6 targetAddr of
                           Inl e \<Rightarrow> Some (failed e conn2 [])
                         | Inr req \<Rightarrow>
                             (case conn_Write req conn2 of
                                (werr2, conn3) \<Rightarrow>
                                  if werr2 then Some (failed ConnectWrite conn3 [])
                                  else readReply (conn3, []))))))"

section \<open>The process supervisor\<close>

text \<open>
  A JSON-shaped Go value (\<^verbatim>\<open>map[string]any\<close>, \<^verbatim>\<open>[]any\<close>, strings, integers, booleans).  A
  Go map has one value per key and no order; it is an association list here, built in the
  order of the source's literal and updated with \<^const>\<open>AList.update\<close>.  \<open>JNull\<close> is a nil
  value (a nil map, a nil slice, a nil interface); \<open>JUnsupported\<close> stands for any value
  that \<^verbatim>\<open>encoding/json\<close> cannot encode.
\<close>

datatype json =
    JNull
  | JString string
  | JNumber int
  | JBool bool
  | JArray "json list"
  | JObject "(string \<times> json) list"
  | JUnsupported

fun marshalable :: "json \<Rightarrow> bool" where
  "marshalable (JArray xs) = list_all marshalable xs"
| "marshalable (JObject kvs) = list_all (\<lambda>kv. marshalable (snd kv)) kvs"
| "marshalable JUnsupported = False"
| "marshalable j = True"

text \<open>
  \<^verbatim>\<open>encoding/json\<close> writes a string coerced to valid UTF-8: it walks the string with
  \<^verbatim>\<open>utf8.DecodeRuneInString\<close> and writes the replacement character U+FFFD, the bytes
  \<^verbatim>\<open>EF BF BD\<close>, for every byte at which no well-formed encoding starts.  \<open>runeSize s\<close> is the
  size of the encoding at the head of \<open>s\<close>, \<open>None\<close> where \<^verbatim>\<open>DecodeRuneInString\<close> returns
  \<^verbatim>\<open>(RuneError, 1)\<close>: the first byte selects the size and the range of the second byte
  (the tables \<^verbatim>\<open>first\<close> and \<^verbatim>\<open>acceptRanges\<close>), every later byte lies in \<^verbatim>\<open>80..BF\<close>.
\<close>

definition inRange :: "nat \<Rightarrow> nat \<Rightarrow> char \<Rightarrow> bool" where
  "inRange lo hi c = (lo \<le> of_char c \<and> of_char c \<le> hi)"

definition runeSize :: "string \<Rightarrow> nat option" where
  "runeSize s =
     (case s of
        [] \<Rightarrow> None
      | c # cs \<Rightarrow>
          let b = (of_char c :: nat) in
          if b < 0x80 then Some 1
          else if b < 0xC2 \<or> 0xF4 < b then None
          else
            let sz = (if b < 0xE0 then 2 else if b < 0xF0 then 3 else 4 :: nat);
                lo = (if b = 0xE0 then 0xA0 else if b = 0xF0 then 0x90 else 0x80);
                hi = (if b = 0xED then 0x9F else if b = 0xF4 then 0x8F else 0xBF)
            in if length s < sz then None
               else if \<not> inRange lo hi (s ! 1) then None
               else if sz \<le> 2 then Some 2
               else if \<not> inRange 0x80 0xBF (s ! 2) then None
               else if sz \<le> 3 then Some 3
               else if \<not> inRange 0x80 0xBF (s ! 3) then None
               else Some 4)"

text \<open>
  The coerced string; \<open>k\<close> counts the bytes still to copy of an encoding already found to
  be well formed.
\<close>

fun coerceFrom :: "nat \<Rightarrow> string \<Rightarrow> string" where
  "coerceFrom k [] = []"
| "coerceFrom k (c # cs) =
     (if 0 < k then c # coerceFrom (k - 1) cs
      else (case runeSize (c # cs) of
              None \<Rightarrow> [CHR 0xEF, CHR 0xBF, CHR 0xBD] @ coerceFrom 0 cs
            | Some sz \<Rightarrow> c # coerceFrom (sz - 1) cs))"

definition coerceUTF8 :: "string \<Rightarrow> string" where
  "coerceUTF8 s = coerceFrom 0 s"

text \<open>
  The document that the text written for a value encodes: strings and map keys coerced to
  valid UTF-8, a nil value as \<^verbatim>\<open>null\<close>, everything else as it is.  How the text
  escapes a character is not part of the document.
\<close>

fun encoded :: "json \<Rightarrow> json" where
  "encoded (JString s) = JString (coerceUTF8 s)"
| "encoded (JArray xs) = JArray (map encoded xs)"
| "encoded (JObject kvs) = JObject (map (\<lambda>kv. (coerceUTF8 (fst kv), encoded (snd kv))) kvs)"
| "encoded j = j"

text \<open>
  \<^verbatim>\<open>json.MarshalIndent\<close> turns the value it is given, as it is at the moment of the call,
  into text.  The text is represented by the document it encodes: later changes to the
  value do not reach it.
\<close>

definition MarshalIndent :: "json \<Rightarrow> json option" where
  "MarshalIndent v = (if marshalable v then Some (encoded v) else None)"

text \<open>What a file holds: the text of a JSON document, or plain bytes.\<close>

datatype file_content = JSONText json | Bytes string

text \<open>
  \<^verbatim>\<open>type Runner struct { CorePath string; Port int; Timeout time.Duration;
  InboundProtocol string; LogLevel string }\<close>; \<^verbatim>\<open>Start\<close> does not read \<^verbatim>\<open>Timeout\<close>.
\<close>

record Runner =
  CorePath :: string
  Port :: int
  InboundProtocol :: string
  LogLevel :: string

text \<open>
  \<^verbatim>\<open>type Started struct { Cmd *exec.Cmd; ConfigPath, LogPath, AccessLogPath string }\<close>.  The
  process handle plays no role in what follows and is left out.  A \<^verbatim>\<open>*Started\<close> is a
  \<open>Started option\<close>: \<open>None\<close> is the nil pointer.
\<close>

record Started =
  ConfigPath :: string
  LogPath :: string
  AccessLogPath :: string

text \<open>
  The operating system as \<^verbatim>\<open>Start\<close> meets it: the directory that \<^verbatim>\<open>os.MkdirTemp\<close> creates
  (\<open>None\<close> for an error), and whether \<^verbatim>\<open>os.WriteFile\<close>, \<^verbatim>\<open>os.Create\<close> and \<^verbatim>\<open>cmd.Start\<close>
  succeed.
\<close>

record start_env =
  MkdirTemp :: "string option"
  WriteFile_ok :: bool
  Create_ok :: bool
  cmd_Start_ok :: bool

datatype start_error =
    CorePathRequired
  | LocalSocksPortRequired
  | UnsupportedInboundProtocol string
  | MarshalCoreConfig
  | CreateTempDir
  | WriteConfig
  | CreateLogFile
  | StartCore

text \<open>
  \<^verbatim>\<open>filepath.Clean\<close> (Unix).  The path is taken apart at its slashes; empty elements and
  \<^verbatim>\<open>.\<close> elements are dropped; a \<^verbatim>\<open>..\<close> element removes the element written before it, is
  dropped at the root of a rooted path, and is kept at the front of a relative one
  (\<open>dotdot\<close> counts those kept); the rest is joined with single slashes, behind the root
  slash of a rooted path; the empty result is \<^verbatim>\<open>.\<close>.
\<close>

fun splitElems :: "string \<Rightarrow> string list" where
  "splitElems [] = [[]]"
| "splitElems (c # cs) =
     (if c = CHR ''/'' then [] # splitElems cs
      else (case splitElems cs of e # es \<Rightarrow> (c # e) # es | [] \<Rightarrow> [[c]]))"

fun joinElems :: "string list \<Rightarrow> string" where
  "joinElems [] = []"
| "joinElems [e] = e"
| "joinElems (e # es) = e @ ''/'' @ joinElems es"

definition cleanElem :: "bool \<Rightarrow> string \<Rightarrow> nat \<times> string list \<Rightarrow> nat \<times> string list" where
  "cleanElem rooted e st =
     (case st of (dotdot, out) \<Rightarrow>
        if e = '''' \<or> e = ''.'' then (dotdot, out)
        else if e = ''..'' then
          (if out \<noteq> [] then (dotdot, butlast out)
           else if \<not> rooted then (dotdot + 1, out)
           else (dotdot, out))
        else (dotdot, out @ [e]))"

definition Clean :: "string \<Rightarrow> string" where
  "Clean path =
     (if path = '''' then ''.''
      else
        let rooted = (hd path = CHR ''/'');
            (dotdot, out) = fold (cleanElem rooted) (splitElems path) (0, []);
            s = (if rooted then ''/'' else '''') @ joinElems (replicate dotdot ''..'' @ out)
        in if s = '''' then ''.'' else s)"

text \<open>
  \<^verbatim>\<open>filepath.Join(dir, name)\<close>: the elements from the first non-empty one on, joined
  with a slash, and the result cleaned; the empty string when both are empty.
\<close>

definition Join :: "string \<Rightarrow> string \<Rightarrow> string" where
  "Join dir name =
     (if dir \<noteq> '''' then Clean (dir @ ''/'' @ name)
      else if name \<noteq> '''' then Clean name
      else '''')"

text \<open>
  \<^verbatim>\<open>func (r Runner) Start(ctx, outbound map[string]any) (*Started, error)\<close>, as in the
  later of the two versions of core.go (the one with \<^verbatim>\<open>InboundProtocol\<close>, \<^verbatim>\<open>LogLevel\<close> and
  \<^verbatim>\<open>AccessLogPath\<close>).  \<open>outbound\<close> is a map or \<open>None\<close> for nil.  The result is the returned
  value and the files written, in order.
  The statements follow the source one by one:

  \<^verbatim>\<open>
  cfg := map[string]any{"log": map[string]any{"loglevel": logLevel}, "inbounds": ..., "outbounds": ...}
  body, err := json.MarshalIndent(cfg, "", "  ")
  ...
  dir, err := os.MkdirTemp("", "proxy-node-")
  ...
  cfg["log"] = map[string]any{"loglevel": logLevel, "access": accessLogPath, "error": logPath}
  if err := os.WriteFile(configPath, body, 0o600); err != nil { ... }
  \<close>
\<close>

definition Start ::
  "Runner \<Rightarrow> start_env \<Rightarrow> (string \<times> json) list option
     \<Rightarrow> (start_error + Started) \<times> (string \<times> file_content) list" where
  "Start r env outbound =
     (if CorePath r = '''' then (Inl CorePathRequired, [])
      else if Port r = 0 then (Inl LocalSocksPortRequired, [])
      else
        let inboundProtocol = TrimSpace (InboundProtocol r);
            inboundProtocol = (if inboundProtocol = '''' then ''socks'' else inboundProtocol)
        in if inboundProtocol \<noteq> ''socks'' \<and> inboundProtocol \<noteq> ''http''
           then (Inl (UnsupportedInboundProtocol inboundProtocol), [])
           else
             let logLevel = TrimSpace (LogLevel r);
                 logLevel = (if logLevel = '''' then ''warning'' else logLevel);
                 inbound = [(''listen'', JString ''127.0.0.1''),
                            (''port'', JNumber (Port r)),
                            (''protocol'', JString inboundProtocol)];
                 inbound = (if inboundProtocol = ''socks''
                            then AList.update ''settings'' (JObject [(''udp'', JBool False)]) inbound
                            else inbound);
                 cfg = [(''log'', JObject [(''loglevel'', JString logLevel)]),
                        (''inbounds'', JArray [JObject inbound]),
                        (''outbounds'', JArray [(case outbound of None \<Rightarrow> JNull | Some kvs \<Rightarrow> JObject kvs),
                            JObject [(''tag'', JString ''direct''), (''protocol'', JString ''freedom'')]])]
             in case MarshalIndent (JObject cfg) of
                  None \<Rightarrow> (Inl MarshalCoreConfig, [])
                | Some body \<Rightarrow>
                    (case MkdirTemp env of
                       None \<Rightarrow> (Inl CreateTempDir, [])
                     | Some dir \<Rightarrow>
                         let configPath = Join dir ''config.json'';
                             logPath = Join dir ''core.log'';
                             accessLogPath = Join dir ''access.log'';
                             cfg = AList.update ''log''
                                     (JObject [(''loglevel'', JString logLevel),
                                               (''access'', JString accessLogPath),
                                               (''error'', JString logPath)]) cfg
                         in if \<not> WriteFile_ok env then (Inl WriteConfig, [])
                            else
                              let files = [(configPath, JSONText body)]
                              in if \<not> Create_ok env then (Inl CreateLogFile, files)
                                 else
                                   let files = files @ [(logPath, Bytes '''')]
                                   in if \<not> cmd_Start_ok env then (Inl StartCore, files)
                                      else (Inr \<lparr>ConfigPath = configPath, LogPath = logPath,
                                                 AccessLogPath = accessLogPath\<rparr>, files)))"

text \<open>
  \<^verbatim>\<open>func (s *Started) ReadLogTail() string\<close>, the same in both versions of core.go.
  \<^verbatim>\<open>os.ReadFile\<close> is a parameter: the file system at the moment of the call, giving the
  bytes of a readable file and \<open>None\<close> where \<^verbatim>\<open>os.ReadFile\<close> returns an error.
\<close>

type_synonym file_system = "string \<Rightarrow> string option"

definition ReadLogTail :: "file_system \<Rightarrow> Started option \<Rightarrow> string" where
  "ReadLogTail readFile s =
     (case s of
        None \<Rightarrow> ''''
      | Some st \<Rightarrow>
          if LogPath st = '''' then ''''
          else (case readFile (LogPath st) of
                  None \<Rightarrow> ''''
                | Some b \<Rightarrow> if length b > 4000 then drop (length b - 4000) b else b))"

section \<open>The metered relay\<close>

text \<open>
  \<^verbatim>\<open>type trafficMeter struct { upTotal, downTotal atomic.Uint64 }\<close>: two 64-bit counters;
  \<^verbatim>\<open>Add\<close> wraps around.
\<close>

record trafficMeter =
  upTotal :: "64 word"
  downTotal :: "64 word"

definition newTrafficMeter :: trafficMeter where
  "newTrafficMeter = \<lparr>upTotal = 0, downTotal = 0\<rparr>"

text \<open>
  The two statements \<^verbatim>\<open>if n > 0 { meter.upTotal.Add(uint64(n)) }\<close> and
  \<^verbatim>\<open>if n > 0 { meter.downTotal.Add(uint64(n)) }\<close> of \<^verbatim>\<open>relayConn\<close>; \<open>n\<close> is the \<^verbatim>\<open>int64\<close>
  that \<^verbatim>\<open>io.Copy\<close> returned, compared as a signed number and added as the same 64 bits.
  Each is one atomic step on the shared meter.
\<close>

definition addUp :: "64 word \<Rightarrow> trafficMeter \<Rightarrow> trafficMeter" where
  "addUp n m = (if 0 <s n then m\<lparr>upTotal := upTotal m + n\<rparr> else m)"

definition addDown :: "64 word \<Rightarrow> trafficMeter \<Rightarrow> trafficMeter" where
  "addDown n m = (if 0 <s n then m\<lparr>downTotal := downTotal m + n\<rparr> else m)"

text \<open>
  The effect of \<^verbatim>\<open>relayConn(client, targetAddr, meter)\<close> on the meter.  \<open>dial_ok\<close> is
  whether \<^verbatim>\<open>net.Dial("tcp", targetAddr)\<close> succeeds; \<open>nUp\<close> and \<open>nDown\<close> are the counts that
  \<^verbatim>\<open>io.Copy(target, client)\<close> and \<^verbatim>\<open>io.Copy(client, target)\<close> return in the two goroutines;
  \<open>up_first\<close> is the schedule: which goroutine reaches its \<^verbatim>\<open>Add\<close> first.
\<close>

definition relayConn :: "bool \<Rightarrow> bool \<Rightarrow> 64 word \<Rightarrow> 64 word \<Rightarrow> trafficMeter \<Rightarrow> trafficMeter" where
  "relayConn dial_ok up_first nUp nDown m =
     (if \<not> dial_ok then m
      else if up_first then addDown nDown (addUp nUp m)
      else addUp nUp (addDown nDown m))"

section \<open>The speed harness\<close>

text \<open>
  The \<^verbatim>\<open>error\<close> values that matter to \<^verbatim>\<open>speedHTTP\<close>: \<^verbatim>\<open>nil\<close>, \<^verbatim>\<open>io.EOF\<close>, any other.
\<close>

datatype io_error = NoError | EOF | OtherError

text \<open>
  A response body: the chunks in which \<^verbatim>\<open>Read\<close> delivers it, and how it ends once they are
  used up, with \<^verbatim>\<open>io.EOF\<close> or with another error.
\<close>

datatype body_end = EndOfStream | Broken

record body =
  chunks :: "byte list list"
  ending :: body_end

definition end_error :: "body_end \<Rightarrow> io_error" where
  "end_error e = (case e of EndOfStream \<Rightarrow> EOF | Broken \<Rightarrow> OtherError)"

fun body_read_chunks :: "nat \<Rightarrow> body_end \<Rightarrow> byte list list \<Rightarrow> (nat \<times> io_error) \<times> byte list list" where
  "body_read_chunks n fin [] = ((0, end_error fin), [])"
| "body_read_chunks n fin ([] # rest) = body_read_chunks n fin rest"
| "body_read_chunks n fin (ch # rest) =
     ((length (take n ch), NoError), if n < length ch then drop n ch # rest else rest)"

definition body_Read :: "nat \<Rightarrow> body \<Rightarrow> (nat \<times> io_error) \<times> body" where
  "body_Read n b =
     (case body_read_chunks n (ending b) (chunks b) of (r, cs) \<Rightarrow> (r, b\<lparr>chunks := cs\<rparr>))"

text \<open>
  \<^verbatim>\<open>io.LimitedReader{R, N}\<close> and its \<^verbatim>\<open>Read\<close>: \<^verbatim>\<open>io.EOF\<close> once \<^verbatim>\<open>N <= 0\<close>, otherwise a read
  of at most \<^verbatim>\<open>N\<close> bytes from \<^verbatim>\<open>R\<close>.
\<close>

record LimitedReader =
  R :: body
  N :: int

definition LimitedReader_Read :: "nat \<Rightarrow> LimitedReader \<Rightarrow> (nat \<times> io_error) \<times> LimitedReader" where
  "LimitedReader_Read plen l =
     (if N l \<le> 0 then ((0, EOF), l)
      else
        let plen' = (if int plen > N l then nat (N l) else plen)
        in case body_Read plen' (R l) of
             ((n, e), b') \<Rightarrow> ((n, e), l\<lparr>R := b', N := N l - int n\<rparr>))"

text \<open>
  \<^verbatim>\<open>io.Copy(io.Discard, src)\<close> is \<^verbatim>\<open>io.Discard\<close>'s \<^verbatim>\<open>ReadFrom(src)\<close>: reads of 8192 bytes
  until one returns an error, which is reported unless it is \<^verbatim>\<open>io.EOF\<close>.  It takes any
  reader and loops for as long as the reader returns no error, so it is partial.
\<close>

partial_function (option) discard_ReadFrom ::
  "(nat \<Rightarrow> 's \<Rightarrow> (nat \<times> io_error) \<times> 's) \<Rightarrow> int \<Rightarrow> 's \<Rightarrow> ((int \<times> io_error) \<times> 's) option"
where
  "discard_ReadFrom rd n s =
     (case rd 8192 s of
        ((readSize, e), s') \<Rightarrow>
          if e \<noteq> NoError then
            (if e = EOF then Some ((n + int readSize, NoError), s')
             else Some ((n + int readSize, e), s'))
          else discard_ReadFrom rd (n + int readSize) s')"

declare discard_ReadFrom.simps [code]

definition Copy ::
  "(nat \<Rightarrow> 's \<Rightarrow> (nat \<times> io_error) \<times> 's) \<Rightarrow> 's \<Rightarrow> ((int \<times> io_error) \<times> 's) option" where
  "Copy rd s = discard_ReadFrom rd 0 s"

text \<open>
  \<^verbatim>\<open>io.CopyN(io.Discard, src, n)\<close>:
  \<^verbatim>\<open>
  written, err = Copy(dst, LimitReader(src, n))
  if written == n { return n, nil }
  if written < n && err == nil { err = EOF }
  return
  \<close>
\<close>

definition CopyN :: "body \<Rightarrow> int \<Rightarrow> ((int \<times> io_error) \<times> body) option" where
  "CopyN src n =
     (case Copy LimitedReader_Read \<lparr>R = src, N = n\<rparr> of
        None \<Rightarrow> None
      | Some ((written', e), l) \<Rightarrow>
          if written' = n then Some ((n, NoError), R l)
          else if written' < n \<and> e = NoError then Some ((written', EOF), R l)
          else Some ((written', e), R l))"

datatype speed_error = NewRequestFailed | DoFailed | UnexpectedStatus int | CopyFailed

record Response =
  StatusCode :: int
  Body :: body

text \<open>
  What \<^verbatim>\<open>speedHTTP\<close> returns, without the elapsed time, and the body as the call leaves it
  (\<open>None\<close> when there is no response).
\<close>

record speed_result =
  outcome :: "speed_error + int"
  body_after :: "body option"

text \<open>
  \<^verbatim>\<open>speedHTTP(ctx, socksAddr, rawURL, maxBytes, timeout)\<close>.  \<open>req_ok\<close> is whether
  \<^verbatim>\<open>http.NewRequestWithContext\<close> succeeds, \<open>do_result\<close> the response of \<^verbatim>\<open>client.Do(req)\<close>
  (\<open>None\<close> for an error).
\<close>

definition speedHTTP :: "bool \<Rightarrow> Response option \<Rightarrow> int \<Rightarrow> speed_result option" where
  "speedHTTP req_ok do_result maxBytes =
     (if \<not> req_ok then Some \<lparr>outcome = Inl NewRequestFailed, body_after = None\<rparr>
      else case do_result of
        None \<Rightarrow> Some \<lparr>outcome = Inl DoFailed, body_after = None\<rparr>
      | Some resp \<Rightarrow>
          if StatusCode resp \<ge> 400
            then Some \<lparr>outcome = Inl (UnexpectedStatus (StatusCode resp)), body_after = Some (Body resp)\<rparr>
          else if maxBytes > 0 then
            (case CopyN (Body resp) maxBytes of
               None \<Rightarrow> None
             | Some ((n, e), b') \<Rightarrow>
                 if e \<noteq> NoError \<and> e \<noteq> EOF
                   then Some \<lparr>outcome = Inl CopyFailed, body_after = Some b'\<rparr>
                 else Some \<lparr>outcome = Inr n, body_after = Some b'\<rparr>)
          else
            (case Copy body_Read (Body resp) of
               None \<Rightarrow> None
             | Some ((n, e), b') \<Rightarrow>
                 if e \<noteq> NoError
                   then Some \<lparr>outcome = Inl CopyFailed, body_after = Some b'\<rparr>
                 else Some \<lparr>outcome = Inr n, body_after = Some b'\<rparr>))"

section \<open>Notions used to state the properties\<close>

text \<open>The bytes a connection has still to deliver, as one sequence.\<close>

definition pending :: "conn \<Rightarrow> byte list" where
  "pending c = concat (incoming c)"

text \<open>
  The bytes a buffered reader has still to hand out: its buffer, then what its connection
  has still to deliver.
\<close>

definition br_stream :: "bufio_Reader \<Rightarrow> byte list" where
  "br_stream br = snd br @ pending (fst br)"

text \<open>The side of a connection that reading does not change.\<close>

definition conn_ports :: "conn \<Rightarrow> nat option \<times> byte list list \<times> bool" where
  "conn_ports c = (wfail c, written c, closed c)"

text \<open>The errors of the reply stage of the handshake.\<close>

fun reply_error :: "dial_error \<Rightarrow> bool" where
  "reply_error ConnectRead = True"
| "reply_error InvalidVersionInReply = True"
| "reply_error (ConnectFailed code) = True"
| "reply_error ReplyDomainLenRead = True"
| "reply_error UnknownAddressType = True"
| "reply_error ReplyTailRead = True"
| "reply_error e = False"

text \<open>A field of a JSON object.\<close>

definition json_field :: "string \<Rightarrow> json \<Rightarrow> json option" where
  "json_field k j = (case j of JObject kvs \<Rightarrow> map_of kvs k | _ \<Rightarrow> None)"

text \<open>The number of bytes a body has still to deliver.\<close>

definition blen :: "body \<Rightarrow> nat" where
  "blen b = length (concat (chunks b))"

text \<open>
  What a limited reader has still to deliver, and the error it ends with: \<^verbatim>\<open>io.EOF\<close> when
  the limit is reached first, the body's own end otherwise.
\<close>

definition lr_avail :: "LimitedReader \<Rightarrow> nat" where
  "lr_avail l = min (nat (N l)) (blen (R l))"

definition lr_fin :: "LimitedReader \<Rightarrow> io_error" where
  "lr_fin l = (if N l \<le> int (blen (R l)) then EOF else end_error (ending (R l)))"

section \<open>Reading from a connection: the chunks do not matter\<close>

text \<open>
  However the peer's bytes are cut into chunks, \<^const>\<open>readFull\<close> returns, and it returns
  the next \<open>n\<close> bytes of the stream, or all that is left together with an error when fewer
  are left.  This holds for the connection and for the buffered reader on it.
\<close>

lemma read_chunks_Cons:
  "ch \<noteq> [] \<Longrightarrow> read_chunks n (ch # rest)
     = ((take n ch, False), if n < length ch then drop n ch # rest else rest)"
  by (cases ch) simp_all

lemma read_chunks_spec:
  "0 < n \<Longrightarrow> read_chunks n chs = ((d, e), chs') \<Longrightarrow>
     (e \<longrightarrow> d = [] \<and> concat chs = []) \<and> (\<not> e \<longrightarrow> d \<noteq> [] \<and> length d \<le> n)
     \<and> concat chs = d @ concat chs'"
proof (induction chs)
  case Nil
  then show ?case by simp
next
  case (Cons ch rest)
  show ?case
  proof (cases "ch = []")
    case True
    with Cons.prems have "read_chunks n rest = ((d, e), chs')" by simp
    note ih = Cons.IH [OF Cons.prems(1) this]
    have flat: "concat (ch # rest) = concat rest" using True by simp
    from ih show ?thesis unfolding flat .
  next
    case False
    from Cons.prems(2) have d: "d = take n ch" and e: "\<not> e"
      and chs': "chs' = (if n < length ch then drop n ch # rest else rest)"
      unfolding read_chunks_Cons [OF False] by simp_all
    from False Cons.prems(1) have "take n ch \<noteq> []" by simp
    moreover have "concat (ch # rest) = take n ch @ concat chs'"
    proof (cases "n < length ch")
      case True
      then show ?thesis unfolding chs' by simp
    next
      case False
      then show ?thesis unfolding chs' by simp
    qed
    ultimately show ?thesis using d e by simp
  qed
qed

lemma conn_Read_spec:
  assumes "0 < n" and "conn_Read n c = ((d, e), c')"
  shows "(e \<longrightarrow> d = [] \<and> pending c = []) \<and> (\<not> e \<longrightarrow> d \<noteq> [] \<and> length d \<le> n)
     \<and> pending c = d @ pending c' \<and> conn_ports c' = conn_ports c"
proof -
  obtain r chs' where rc: "read_chunks n (incoming c) = (r, chs')" by (cases "read_chunks n (incoming c)")
  with assms(2) have r: "r = (d, e)" and c': "c' = c\<lparr>incoming := chs'\<rparr>"
    by (simp_all add: conn_Read_def)
  have f: "pending c' = concat chs'" "conn_ports c' = conn_ports c" "pending c = concat (incoming c)"
    by (simp_all add: c' pending_def conn_ports_def)
  have "(e \<longrightarrow> d = [] \<and> pending c = []) \<and> (\<not> e \<longrightarrow> d \<noteq> [] \<and> length d \<le> n)
     \<and> pending c = d @ pending c'"
    unfolding f(1,3) by (rule read_chunks_spec [OF assms(1) rc [unfolded r]])
  with f(2) show ?thesis by blast
qed

lemma br_Read_spec:
  assumes "0 < n" and "br_Read n br = ((d, e), br')"
  shows "(e \<longrightarrow> d = [] \<and> br_stream br = []) \<and> (\<not> e \<longrightarrow> d \<noteq> [] \<and> length d \<le> n)
     \<and> br_stream br = d @ br_stream br' \<and> conn_ports (fst br') = conn_ports (fst br)"
proof -
  obtain c buf where br: "br = (c, buf)" by (cases br)
  show ?thesis
  proof (cases "buf = []")
    case False
    with assms(1) have "br_Read n br = ((take n buf, False), (c, drop n buf))"
      by (simp add: br_Read_def br)
    with assms(2) have "d = take n buf" "\<not> e" "br' = (c, drop n buf)" by simp_all
    with False assms(1) show ?thesis
      by (simp add: br br_stream_def)
  next
    case True
    note empty = this
    show ?thesis
    proof (cases "defaultBufSize \<le> n")
      case True
      obtain r c' where rd: "conn_Read n c = (r, c')" by (cases "conn_Read n c")
      with assms True empty have "r = (d, e)" "br' = (c', [])"
        by (simp_all add: br_Read_def br)
      with conn_Read_spec [OF assms(1), of c d e c'] rd show ?thesis
        by (cases e) (auto simp: br empty br_stream_def)
    next
      case False
      obtain d0 e0 c' where rd: "conn_Read defaultBufSize c = ((d0, e0), c')"
        by (metis prod.exhaust)
      have pos: "0 < defaultBufSize" by (simp add: defaultBufSize_def)
      note sp = conn_Read_spec [OF pos rd]
      from assms False empty rd
      have eq: "((d, e), br') = (if d0 = [] then (([], e0), (c', [])) else ((take n d0, False), (c', drop n d0)))"
        by (simp add: br_Read_def br)
      show ?thesis
      proof (cases "d0 = []")
        case True
        with eq have "d = []" "e = e0" "br' = (c', [])" by simp_all
        with sp True show ?thesis
          by (cases e0) (auto simp: br empty br_stream_def)
      next
        case nonempty: False
        with eq have "d = take n d0" "\<not> e" "br' = (c', drop n d0)" by simp_all
        with sp nonempty assms(1) show ?thesis
          by (simp add: br empty br_stream_def)
      qed
    qed
  qed
qed

lemma br_ReadByte_spec:
  assumes "br_ReadByte br = (x, br')"
  shows "(case br_stream br of [] \<Rightarrow> x = None \<and> br_stream br' = []
          | y # ys \<Rightarrow> x = Some y \<and> br_stream br' = ys)
     \<and> conn_ports (fst br') = conn_ports (fst br)"
proof -
  obtain c buf where br: "br = (c, buf)" by (cases br)
  show ?thesis
  proof (cases buf)
    case (Cons y ys)
    with assms br show ?thesis by (auto simp: br_ReadByte_def br_stream_def)
  next
    case Nil
    obtain d0 e0 c' where rd: "conn_Read defaultBufSize c = ((d0, e0), c')"
      by (metis prod.exhaust)
    have pos: "0 < defaultBufSize" by (simp add: defaultBufSize_def)
    note sp = conn_Read_spec [OF pos rd]
    show ?thesis
    proof (cases d0)
      case Nil
      with assms br \<open>buf = []\<close> rd sp show ?thesis
        by (auto simp: br_ReadByte_def br_stream_def)
    next
      case (Cons y ys)
      with assms br \<open>buf = []\<close> rd sp show ?thesis
        by (auto simp: br_ReadByte_def br_stream_def)
    qed
  qed
qed

lemma readFull_stream:
  assumes R: "\<And>n s d e s'. 0 < n \<Longrightarrow> r n s = ((d, e), s') \<Longrightarrow>
     (e \<longrightarrow> d = [] \<and> str s = []) \<and> (\<not> e \<longrightarrow> d \<noteq> [] \<and> length d \<le> n)
     \<and> str s = d @ str s' \<and> keep s' = keep s"
  shows "\<exists>s'. readFull r n b s = Some ((b @ take n (str s), length (str s) < n), s')
     \<and> str s' = drop n (str s) \<and> keep s' = keep s"
proof (induction n arbitrary: b s rule: less_induct)
  case (less n)
  show ?case
  proof (cases "n = 0")
    case True
    then show ?thesis by (subst readFull.simps) simp
  next
    case False
    then have pos: "0 < n" by simp
    obtain d e s1 where rd: "r n s = ((d, e), s1)" by (metis prod.exhaust)
    note sp = R [OF pos rd]
    show ?thesis
    proof (cases e)
      case True
      with sp have "str s = []" "d = []" "str s1 = []" by auto
      with True rd pos sp show ?thesis
        by (subst readFull.simps) simp
    next
      case False
      with sp have d: "d \<noteq> []" "length d \<le> n" and st: "str s = d @ str s1" and iv: "keep s1 = keep s"
        by auto
      from d have "n - length d < n" using pos by (cases d) auto
      from less.IH [OF this, of "b @ d" s1]
      obtain s2 where rf: "readFull r (n - length d) (b @ d) s1
            = Some (((b @ d) @ take (n - length d) (str s1), length (str s1) < n - length d), s2)"
        and st2: "str s2 = drop (n - length d) (str s1)" and iv2: "keep s2 = keep s1"
        by blast
      have "readFull r n b s = readFull r (n - length d) (b @ d) s1"
        using rd False pos by (subst readFull.simps) simp
      with rf st st2 iv iv2 d show ?thesis
        by auto
    qed
  qed
qed

lemma readFull_conn:
  "\<exists>c'. readFull conn_Read n b c = Some ((b @ take n (pending c), length (pending c) < n), c')
     \<and> pending c' = drop n (pending c) \<and> conn_ports c' = conn_ports c"
  by (rule readFull_stream [where r = conn_Read and str = pending and keep = conn_ports])
     (rule conn_Read_spec)

lemma readFull_br:
  "\<exists>br'. readFull br_Read n b br = Some ((b @ take n (br_stream br), length (br_stream br) < n), br')
     \<and> br_stream br' = drop n (br_stream br) \<and> conn_ports (fst br') = conn_ports (fst br)"
  by (rule readFull_stream [where r = br_Read and str = br_stream and keep = "\<lambda>br. conn_ports (fst br)"])
     (rule br_Read_spec)



section \<open>The stages of the handshake\<close>

lemma conn_ports_eq:
  "conn_ports c' = conn_ports c \<Longrightarrow> wfail c' = wfail c \<and> written c' = written c \<and> closed c' = closed c"
  by (simp add: conn_ports_def)

lemma pending_written: "pending (c\<lparr>written := w\<rparr>) = pending c"
  by (simp add: pending_def)

lemma failed_facts:
  "conn_state (failed e c buf) = Some (conn_Close c)" "err (failed e c buf) = Some e"
  "wfail (conn_Close c) = wfail c" "written (conn_Close c) = written c" "closed (conn_Close c)"
  by (simp_all add: failed_def conn_Close_def)

lemma discardTail_spec:
  assumes st: "br_stream br1 = t" and c1: "fst br1 = c1"
  shows "\<exists>r c'. discardTail k br1 = Some r
     \<and> conn_state r = Some c' \<and> wfail c' = wfail c1 \<and> written c' = written c1
     \<and> closed c' = (closed c1 \<or> err r \<noteq> None)
     \<and> (\<forall>e. err r = Some e \<longrightarrow> reply_error e)
     \<and> (if length t < k + 2 then err r = Some ReplyTailRead
         else err r = None \<and> br_dropped r @ pending c' = drop (k + 2) t)"
proof -
  obtain br3 where rf: "readFull br_Read (k + 2) [] br1
        = Some (([] @ take (k + 2) (br_stream br1), length (br_stream br1) < k + 2), br3)"
    and s3: "br_stream br3 = drop (k + 2) (br_stream br1)"
    and p3: "conn_ports (fst br3) = conn_ports (fst br1)"
    using readFull_br [of "k + 2" "[]" br1] by blast
  obtain c3 buf3 where br3: "br3 = (c3, buf3)" by (cases br3)
  note p = conn_ports_eq [OF p3, unfolded br3 c1, simplified]
  have rf': "readFull br_Read (k + 2) [] br1 = Some ((take (k + 2) t, length t < k + 2), (c3, buf3))"
    using rf st br3 by simp
  have s3': "buf3 @ pending c3 = drop (k + 2) t"
    using s3 [unfolded st] br3 by (simp add: br_stream_def)
  show ?thesis
  proof (cases "length t < k + 2")
    case True
    with p show ?thesis
      unfolding discardTail_def rf' by (simp add: failed_def conn_Close_def)
  next
    case False
    with p s3' show ?thesis
      unfolding discardTail_def rf' by simp
  qed
qed

lemma discardTail_drop:
  assumes st: "br_stream br1 = drop n s" and c1: "fst br1 = c1" and n: "n \<le> length s"
  shows "\<exists>r c'. discardTail k br1 = Some r
     \<and> conn_state r = Some c' \<and> wfail c' = wfail c1 \<and> written c' = written c1
     \<and> closed c' = (closed c1 \<or> err r \<noteq> None)
     \<and> (\<forall>e. err r = Some e \<longrightarrow> reply_error e)
     \<and> (if length s < n + k + 2 then err r = Some ReplyTailRead
         else err r = None \<and> br_dropped r @ pending c' = drop (n + k + 2) s)"
proof -
  have a: "length (drop n s) < k + 2 \<longleftrightarrow> length s < n + k + 2"
    using n by auto
  have b: "drop (k + 2) (drop n s) = drop (n + k + 2) s"
    by (simp add: add.commute add.left_commute)
  from discardTail_spec [OF st c1, of k] show ?thesis
    unfolding a b .
qed

lemma readReply_spec:
  fixes br :: bufio_Reader
  defines "s \<equiv> br_stream br"
  shows "\<exists>r c'. readReply br = Some r \<and> conn_state r = Some c'
     \<and> wfail c' = wfail (fst br) \<and> written c' = written (fst br)
     \<and> closed c' = (closed (fst br) \<or> err r \<noteq> None)
     \<and> (\<forall>e. err r = Some e \<longrightarrow> reply_error e)
     \<and> (if length s < 4 then err r = Some ConnectRead
         else if s ! 0 \<noteq> 0x05 then err r = Some InvalidVersionInReply
         else if s ! 1 \<noteq> 0x00 then err r = Some (ConnectFailed (s ! 1))
         else if s ! 3 = 0x01 then
           (if length s < 4 + 4 + 2 then err r = Some ReplyTailRead
            else err r = None \<and> br_dropped r @ pending c' = drop (4 + 4 + 2) s)
         else if s ! 3 = 0x04 then
           (if length s < 4 + 16 + 2 then err r = Some ReplyTailRead
            else err r = None \<and> br_dropped r @ pending c' = drop (4 + 16 + 2) s)
         else if s ! 3 = 0x03 then
           (if length s < 5 then err r = Some ReplyDomainLenRead
            else if length s < 4 + 1 + unat (s ! 4) + 2 then err r = Some ReplyTailRead
            else err r = None \<and> br_dropped r @ pending c' = drop (4 + 1 + unat (s ! 4) + 2) s)
         else err r = Some UnknownAddressType)"
proof -
  obtain br1 where rf: "readFull br_Read 4 [] br = Some (([] @ take 4 (br_stream br), length (br_stream br) < 4), br1)"
    and s1: "br_stream br1 = drop 4 (br_stream br)"
    and p1: "conn_ports (fst br1) = conn_ports (fst br)"
    using readFull_br [of 4 "[]" br] by blast
  obtain c1 buf1 where br1: "br1 = (c1, buf1)" by (cases br1)
  note p = conn_ports_eq [OF p1, unfolded br1, simplified]
  have rf': "readFull br_Read 4 [] br = Some ((take 4 s, length s < 4), (c1, buf1))"
    using rf br1 by (simp add: s_def)
  have s1': "br_stream (c1, buf1) = drop 4 s"
    using s1 br1 by (simp add: s_def)
  show ?thesis
  proof (cases "length s < 4")
    case True
    then show ?thesis
      unfolding readReply_def rf' using p by (simp add: failed_facts)
  next
    case False
    then have nth: "take 4 s ! 0 = s ! 0" "take 4 s ! 1 = s ! 1" "take 4 s ! 3 = s ! 3"
      by simp_all
    consider (ver) "s ! 0 \<noteq> 0x05" | (st) "s ! 0 = 0x05" "s ! 1 \<noteq> 0x00"
      | (v4) "s ! 0 = 0x05" "s ! 1 = 0x00" "s ! 3 = 0x01"
      | (v6) "s ! 0 = 0x05" "s ! 1 = 0x00" "s ! 3 = 0x04"
      | (dom) "s ! 0 = 0x05" "s ! 1 = 0x00" "s ! 3 = 0x03"
      | (unk) "s ! 0 = 0x05" "s ! 1 = 0x00" "s ! 3 \<noteq> 0x01" "s ! 3 \<noteq> 0x04" "s ! 3 \<noteq> 0x03"
      by blast
    then show ?thesis
    proof cases
      case ver
      with False show ?thesis
        unfolding readReply_def rf' using p by (simp add: failed_facts nth)
    next
      case st
      with False show ?thesis
        unfolding readReply_def rf' using p by (simp add: failed_facts nth)
    next
      case unk
      with False show ?thesis
        unfolding readReply_def rf' using p by (simp add: failed_facts nth)
    next
      case v4
      have rr: "readReply br = discardTail 4 (c1, buf1)"
        unfolding readReply_def rf' using False v4 by (simp add: nth)
      have len: "4 \<le> length s" using False by simp
      from discardTail_drop [OF s1' _ len, of c1 4] obtain r c' where
        "discardTail 4 (c1, buf1) = Some r" "conn_state r = Some c'" "wfail c' = wfail c1"
        "written c' = written c1" "closed c' = (closed c1 \<or> err r \<noteq> None)"
        "\<forall>e. err r = Some e \<longrightarrow> reply_error e"
        "if length s < 4 + 4 + 2 then err r = Some ReplyTailRead
         else err r = None \<and> br_dropped r @ pending c' = drop (4 + 4 + 2) s"
        by auto
      with False v4 p show ?thesis
        unfolding rr by (intro exI [of _ r] exI [of _ c']) simp
    next
      case v6
      have rr: "readReply br = discardTail 16 (c1, buf1)"
        unfolding readReply_def rf' using False v6 by (simp add: nth)
      have len: "4 \<le> length s" using False by simp
      from discardTail_drop [OF s1' _ len, of c1 16] obtain r c' where
        "discardTail 16 (c1, buf1) = Some r" "conn_state r = Some c'" "wfail c' = wfail c1"
        "written c' = written c1" "closed c' = (closed c1 \<or> err r \<noteq> None)"
        "\<forall>e. err r = Some e \<longrightarrow> reply_error e"
        "if length s < 4 + 16 + 2 then err r = Some ReplyTailRead
         else err r = None \<and> br_dropped r @ pending c' = drop (4 + 16 + 2) s"
        by auto
      with False v6 p show ?thesis
        unfolding rr by (intro exI [of _ r] exI [of _ c']) simp
    next
      case dom
      obtain x br2 where rb: "br_ReadByte (c1, buf1) = (x, br2)" by (cases "br_ReadByte (c1, buf1)")
      obtain c2 buf2 where br2: "br2 = (c2, buf2)" by (cases br2)
      note bs = br_ReadByte_spec [OF rb, unfolded s1']
      note p2 = conn_ports_eq [OF conjunct2 [OF bs], unfolded br2, simplified]
      show ?thesis
      proof (cases "length s < 5")
        case True
        with False have "drop 4 s = []" by simp
        with bs have "x = None" by simp
        then have rr: "readReply br = Some (failed ReplyDomainLenRead c2 buf2)"
          unfolding readReply_def rf' using False dom rb br2 by (simp add: nth)
        show ?thesis
          unfolding rr using p p2 False dom True by (simp add: failed_facts)
      next
        case long: False
        then have d4: "drop 4 s = s ! 4 # drop 5 s"
          by (metis Cons_nth_drop_Suc not_less eval_nat_numeral(3) numeral_eq_Suc pred_numeral_simps(2) semiring_norm(26,27) Suc_le_lessD)
        with bs have x: "x = Some (s ! 4)" and s2: "br_stream br2 = drop 5 s" by simp_all
        have rr: "readReply br = discardTail (unat (s ! 4)) br2"
          unfolding readReply_def rf' using False dom rb x by (simp add: nth)
        have c2: "fst br2 = c2" using br2 by simp
        have len: "5 \<le> length s" using long by simp
        from discardTail_drop [OF s2 c2 len, of "unat (s ! 4)"] obtain r c' where
          "discardTail (unat (s ! 4)) br2 = Some r" "conn_state r = Some c'" "wfail c' = wfail c2"
          "written c' = written c2" "closed c' = (closed c2 \<or> err r \<noteq> None)"
          "\<forall>e. err r = Some e \<longrightarrow> reply_error e"
          "if length s < 5 + unat (s ! 4) + 2 then err r = Some ReplyTailRead
           else err r = None \<and> br_dropped r @ pending c' = drop (5 + unat (s ! 4) + 2) s"
          by blast
        with False dom p p2 long show ?thesis
          unfolding rr by (intro exI [of _ r] exI [of _ c']) simp
      qed
    qed
  qed
qed

lemma readReply_errors:
  assumes "readReply br = Some r"
  shows "\<forall>e. err r = Some e \<longrightarrow> reply_error e"
  using readReply_spec [of br] assms by auto



lemma greeting_exchange:
  fixes c :: conn
  defines "c1 \<equiv> c\<lparr>written := written c @ [[0x05, 0x01, 0x00]]\<rparr>"
  shows "conn_Write [0x05, 0x01, 0x00] c = (wfail c = Some (length (written c)), c1)"
    and "\<exists>c2. readFull conn_Read 2 [] c1 = Some ((take 2 (pending c), length (pending c) < 2), c2)
           \<and> pending c2 = drop 2 (pending c) \<and> wfail c2 = wfail c
           \<and> written c2 = written c @ [[0x05, 0x01, 0x00]] \<and> closed c2 = closed c"
proof -
  show "conn_Write [0x05, 0x01, 0x00] c = (wfail c = Some (length (written c)), c1)"
    by (simp add: conn_Write_def c1_def)
  have pc: "pending c1 = pending c" by (simp add: c1_def pending_written)
  from readFull_conn [of 2 "[]" c1] obtain c2 where
    rf: "readFull conn_Read 2 [] c1 = Some (([] @ take 2 (pending c1), length (pending c1) < 2), c2)"
    and s2: "pending c2 = drop 2 (pending c1)" and p2: "conn_ports c2 = conn_ports c1"
    by blast
  from conn_ports_eq [OF p2] have "wfail c2 = wfail c" "written c2 = written c @ [[0x05, 0x01, 0x00]]"
    "closed c2 = closed c"
    by (simp_all add: c1_def)
  with rf s2 show "\<exists>c2. readFull conn_Read 2 [] c1 = Some ((take 2 (pending c), length (pending c) < 2), c2)
           \<and> pending c2 = drop 2 (pending c) \<and> wfail c2 = wfail c
           \<and> written c2 = written c @ [[0x05, 0x01, 0x00]] \<and> closed c2 = closed c"
    unfolding pc by simp
qed

lemma DialSocks5_to_reply:
  assumes gw: "wfail c \<noteq> Some (length (written c))"
    and len: "2 \<le> length (pending c)"
    and acc: "pending c ! 0 = 0x05" "pending c ! 1 = 0x00"
    and req: "connectRequest p t = Inr req"
    and cw: "wfail c \<noteq> Some (Suc (length (written c)))"
  shows "\<exists>c3. DialSocks5 p (Some c) t = readReply (c3, [])
     \<and> br_stream (c3, []) = drop 2 (pending c) \<and> wfail c3 = wfail c
     \<and> written c3 = written c @ [[0x05, 0x01, 0x00], req] \<and> closed c3 = closed c"
proof -
  define c1 where "c1 = c\<lparr>written := written c @ [[0x05, 0x01, 0x00]]\<rparr>"
  note g = greeting_exchange [of c, folded c1_def]
  from g(2) obtain c2 where rf: "readFull conn_Read 2 [] c1 = Some ((take 2 (pending c), length (pending c) < 2), c2)"
    and c2: "pending c2 = drop 2 (pending c)" "wfail c2 = wfail c"
      "written c2 = written c @ [[0x05, 0x01, 0x00]]" "closed c2 = closed c"
    by blast
  from len have nth: "take 2 (pending c) ! 0 = pending c ! 0" "take 2 (pending c) ! 1 = pending c ! 1"
    by simp_all
  define c3 where "c3 = c2\<lparr>written := written c2 @ [req]\<rparr>"
  have w: "conn_Write req c2 = (False, c3)"
    using cw by (simp add: conn_Write_def c3_def c2)
  have c3: "wfail c3 = wfail c" "written c3 = written c @ [[0x05, 0x01, 0x00], req]"
    "closed c3 = closed c" "br_stream (c3, []) = drop 2 (pending c)"
    by (simp_all add: c3_def c2 br_stream_def pending_written)
  have "DialSocks5 p (Some c) t = readReply (c3, [])"
    unfolding DialSocks5_def using gw len acc req g(1) rf w by (simp add: nth)
  with c3 show ?thesis by blast
qed

lemma DialSocks5_front:
  fixes c :: conn
  defines "s \<equiv> pending c"
  shows "\<exists>r c'. DialSocks5 p (Some c) t = Some r \<and> conn_state r = Some c'
     \<and> wfail c' = wfail c \<and> closed c' = (closed c \<or> err r \<noteq> None)
     \<and> (if wfail c = Some (length (written c))
           then err r = Some GreetingWrite \<and> written c' = written c @ [[0x05, 0x01, 0x00]]
         else if length s < 2
           then err r = Some GreetingRead \<and> written c' = written c @ [[0x05, 0x01, 0x00]]
         else if s ! 0 \<noteq> 0x05 \<or> s ! 1 \<noteq> 0x00
           then err r = Some AuthNegotiationFailed \<and> written c' = written c @ [[0x05, 0x01, 0x00]]
         else (case connectRequest p t of
                 Inl e \<Rightarrow> err r = Some e \<and> written c' = written c @ [[0x05, 0x01, 0x00]]
               | Inr req \<Rightarrow> written c' = written c @ [[0x05, 0x01, 0x00], req]
                    \<and> (if wfail c = Some (Suc (length (written c))) then err r = Some ConnectWrite
                        else \<forall>e. err r = Some e \<longrightarrow> reply_error e)))"
proof -
  define c1 where "c1 = c\<lparr>written := written c @ [[0x05, 0x01, 0x00]]\<rparr>"
  note g = greeting_exchange [of c, folded c1_def]
  from g(2) obtain c2 where rf: "readFull conn_Read 2 [] c1 = Some ((take 2 s, length s < 2), c2)"
    and c2: "pending c2 = drop 2 s" "wfail c2 = wfail c"
      "written c2 = written c @ [[0x05, 0x01, 0x00]]" "closed c2 = closed c"
    unfolding s_def by blast
  have c1: "wfail c1 = wfail c" "written c1 = written c @ [[0x05, 0x01, 0x00]]" "closed c1 = closed c"
    by (simp_all add: c1_def)
  show ?thesis
  proof (cases "wfail c = Some (length (written c))")
    case True
    then show ?thesis
      unfolding DialSocks5_def using g(1) c1 by (simp add: failed_facts)
  next
    case gw: False
    show ?thesis
    proof (cases "length s < 2")
      case True
      with gw show ?thesis
        unfolding DialSocks5_def using g(1) rf c2 by (simp add: failed_facts)
    next
      case len: False
      then have nth: "take 2 s ! 0 = s ! 0" "take 2 s ! 1 = s ! 1" by simp_all
      show ?thesis
      proof (cases "s ! 0 \<noteq> 0x05 \<or> s ! 1 \<noteq> 0x00")
        case True
        with gw len show ?thesis
          unfolding DialSocks5_def using g(1) rf c2 by (simp add: failed_facts nth) 
      next
        case acc: False
        show ?thesis
        proof (cases "connectRequest p t")
          case (Inl e)
          with gw len acc show ?thesis
            unfolding DialSocks5_def using g(1) rf c2 by (simp add: failed_facts nth)
        next
          case (Inr req)
          define c3 where "c3 = c2\<lparr>written := written c2 @ [req]\<rparr>"
          have w: "conn_Write req c2 = (wfail c = Some (Suc (length (written c))), c3)"
            by (simp add: conn_Write_def c3_def c2)
          have c3: "wfail c3 = wfail c" "written c3 = written c @ [[0x05, 0x01, 0x00], req]"
            "closed c3 = closed c"
            by (simp_all add: c3_def c2)
          show ?thesis
          proof (cases "wfail c = Some (Suc (length (written c)))")
            case True
            with gw len acc Inr show ?thesis
              unfolding DialSocks5_def using g(1) rf w c3 by (simp add: failed_facts nth)
          next
            case cw: False
            have d: "DialSocks5 p (Some c) t = readReply (c3, [])"
              unfolding DialSocks5_def using gw len acc Inr cw g(1) rf w by (simp add: nth)
            from readReply_spec [of "(c3, [])"] obtain r c' where
              rr: "readReply (c3, []) = Some r" and "conn_state r = Some c'" "wfail c' = wfail c3"
              "written c' = written c3" "closed c' = (closed c3 \<or> err r \<noteq> None)"
              by auto
            moreover note readReply_errors [OF rr]
            ultimately show ?thesis
              unfolding d using gw len acc Inr cw c3
              by (intro exI [of _ r] exI [of _ c']) simp
          qed
        qed
      qed
    qed
  qed
qed

lemma take_prefix_nth:
  assumes "take n s = xs" and "length xs = n"
  shows "n \<le> length s" and "\<And>i. i < n \<Longrightarrow> s ! i = xs ! i"
proof -
  from assms have "min (length s) n = n" by (metis length_take)
  then show "n \<le> length s" by simp
  fix i assume "i < n"
  then have "take n s ! i = s ! i" by simp
  with assms(1) show "s ! i = xs ! i" by simp
qed

section \<open>The CONNECT request\<close>

lemma mod_65536_256: "(p::int) mod 65536 mod 256 = p mod 256"
  by (simp add: mod_mod_cancel)

lemma div_65536_256: "(p::int) mod 65536 div 256 = p div 256 mod 256"
proof -
  have "p mod 65536 = 256 * (p div 256 mod 256) + p mod 256"
    using zmod_zmult2_eq [of 256 p 256] by simp
  then show ?thesis by simp
qed

lemma PutUint16_big_endian:
  "PutUint16 (of_int p) = [of_int (p div 256), of_int (p mod 256)]"
proof -
  have "(ucast (of_int p :: 16 word) :: 8 word) = of_int (p mod 256)"
    by transfer (simp add: take_bit_eq_mod mod_65536_256)
  moreover have "(ucast (drop_bit 8 (of_int p :: 16 word)) :: 8 word) = of_int (p div 256)"
    by transfer (simp add: take_bit_eq_mod drop_bit_eq_div div_65536_256)
  ultimately show ?thesis by (simp add: PutUint16_def)
qed

lemma parseIPv4Fields_shape:
  "parseIPv4Fields s prev val dl fs = Some r \<Longrightarrow> length fs \<le> 3 \<Longrightarrow>
     length r = 4 \<and> (\<forall>c \<in> set s. isDigit c \<or> c = CHR ''.'')
     \<and> (length fs < 3 \<longrightarrow> CHR ''.'' \<in> set s)"
proof (induction s prev val dl fs rule: parseIPv4Fields.induct)
  case (1 prev val digLen fs)
  then show ?case by (auto split: if_splits)
next
  case (2 c cs prev val digLen fs)
  show ?case
  proof (cases "isDigit c")
    case True
    with "2.prems" have ok: "\<not> (digLen = 1 \<and> val = 0)" "\<not> val * 10 + digitVal c > 255"
      and rec: "parseIPv4Fields cs (Some c) (val * 10 + digitVal c) (digLen + 1) fs = Some r"
      by (simp_all add: Let_def split: if_splits)
    from "2.IH"(1) [OF True ok(1) refl ok(2) rec "2.prems"(2)] True show ?thesis by simp
  next
    case False
    with "2.prems" have dot: "c = CHR ''.''"
      and ok: "\<not> (prev = None \<or> cs = [] \<or> prev = Some CHR ''.'')" "length fs \<noteq> 3"
      and rec: "parseIPv4Fields cs (Some c) 0 0 (fs @ [of_nat val]) = Some r"
      by (simp_all split: if_splits)
    from ok "2.prems"(2) have "length (fs @ [of_nat val :: byte]) \<le> 3" by simp
    from "2.IH"(2) [OF False dot ok rec this] dot show ?thesis by simp
  qed
qed

lemma isDigit_not_sep: "isDigit c \<Longrightarrow> c \<noteq> CHR ''.'' \<and> c \<noteq> CHR '':'' \<and> c \<noteq> CHR ''%''"
  by (auto simp: isDigit_def)

lemma find_dot:
  "\<forall>c \<in> set s. isDigit c \<or> c = CHR ''.'' \<Longrightarrow> CHR ''.'' \<in> set s \<Longrightarrow>
     find (\<lambda>c. c = CHR ''.'' \<or> c = CHR '':'' \<or> c = CHR ''%'') s = Some CHR ''.''"
proof (induction s)
  case Nil
  then show ?case by simp
next
  case (Cons a s)
  show ?case
  proof (cases "a = CHR ''.''")
    case True
    then show ?thesis by simp
  next
    case False
    with Cons.prems have "isDigit a" "CHR ''.'' \<in> set s" "\<forall>c \<in> set s. isDigit c \<or> c = CHR ''.''"
      by auto
    with Cons.IH isDigit_not_sep [of a] show ?thesis by simp
  qed
qed

lemma ParseIP_IPv4:
  assumes "parseIPv4 host = Some ip4"
  shows "ParseIP p host = Some (v4InV6Prefix @ ip4)" and "To4 (v4InV6Prefix @ ip4) = Some ip4"
    and "length ip4 = 4"
proof -
  from parseIPv4Fields_shape [OF assms [unfolded parseIPv4_def]]
  have len: "length ip4 = 4" and chars: "\<forall>c \<in> set host. isDigit c \<or> c = CHR ''.''"
    and dot: "CHR ''.'' \<in> set host"
    by simp_all
  show "length ip4 = 4" by (rule len)
  from find_dot [OF chars dot] assms show "ParseIP p host = Some (v4InV6Prefix @ ip4)"
    by (simp add: ParseIP_def)
  from len show "To4 (v4InV6Prefix @ ip4) = Some ip4"
    by (simp add: To4_def v4InV6Prefix_def)
qed

lemma connectRequest_IPv4:
  assumes "SplitHostPort t = Some (host, portStr)" and "Atoi portStr = Some port"
    and "1 \<le> port" and "port \<le> 65535" and "parseIPv4 host = Some ip4"
  shows "connectRequest p t
     = Inr ([0x05, 0x01, 0x00, 0x01] @ ip4 @ [of_int (port div 256), of_int (port mod 256)])"
  using assms ParseIP_IPv4(1) [OF assms(5), of p] ParseIP_IPv4(2) [OF assms(5)]
  by (simp add: connectRequest_def PutUint16_big_endian)

lemma connectRequest_IPv6:
  assumes "SplitHostPort t = Some (host, portStr)" and "Atoi portStr = Some port"
    and "1 \<le> port" and "port \<le> 65535"
    and "Option.bind (ParseIP p host) To4 = None" and "Option.bind (ParseIP p host) To16 = Some ip16"
  shows "connectRequest p t
     = Inr ([0x05, 0x01, 0x00, 0x04] @ ip16 @ [of_int (port div 256), of_int (port mod 256)])"
  using assms by (simp add: connectRequest_def PutUint16_big_endian Let_def)

lemma connectRequest_domain:
  assumes "SplitHostPort t = Some (host, portStr)" and "Atoi portStr = Some port"
    and "1 \<le> port" and "port \<le> 65535" and "ParseIP p host = None"
    and "TrimSpace host \<noteq> []" and "length (TrimSpace host) \<le> 255"
  shows "connectRequest p t
     = Inr ([0x05, 0x01, 0x00, 0x03, of_nat (length (TrimSpace host))] @ map of_char (TrimSpace host)
            @ [of_int (port div 256), of_int (port mod 256)])"
  using assms by (simp add: connectRequest_def PutUint16_big_endian Let_def)


section \<open>Copying a response body\<close>

lemma body_read_chunks_spec:
  "0 < n \<Longrightarrow> body_read_chunks n fin cs = ((k, e), cs') \<Longrightarrow>
     (if length (concat cs) = 0 then k = 0 \<and> e = end_error fin \<and> length (concat cs') = 0
      else e = NoError \<and> 0 < k \<and> k \<le> n \<and> k \<le> length (concat cs)
        \<and> length (concat cs') = length (concat cs) - k)"
proof (induction cs)
  case Nil
  then show ?case by simp
next
  case (Cons ch rest)
  show ?case
  proof (cases ch)
    case Nil
    with Cons show ?thesis by simp
  next
    case (Cons x xs)
    with Cons.prems show ?thesis by (auto simp: min_def)
  qed
qed

lemma body_Read_spec:
  assumes "0 < n" and "body_Read n b = ((k, e), b')"
  shows "(if blen b = 0 then k = 0 \<and> e = end_error (ending b) \<and> blen b' = 0
          else e = NoError \<and> 0 < k \<and> k \<le> n \<and> k \<le> blen b \<and> blen b' = blen b - k)
     \<and> ending b' = ending b"
proof -
  obtain r cs where rc: "body_read_chunks n (ending b) (chunks b) = (r, cs)"
    by (cases "body_read_chunks n (ending b) (chunks b)")
  with assms(2) have r: "r = (k, e)" and b': "b' = b\<lparr>chunks := cs\<rparr>"
    by (simp_all add: body_Read_def)
  from body_read_chunks_spec [OF assms(1) rc [unfolded r]] b' show ?thesis
    by (simp add: blen_def)
qed

lemma end_error_not_NoError: "end_error x \<noteq> NoError"
  by (cases x) (simp_all add: end_error_def)

lemma discard_ReadFrom_spec:
  assumes rd: "\<And>s k e s'. rd 8192 s = ((k, e), s') \<Longrightarrow>
     (if avail s = 0 then k = 0 \<and> e = fin s \<and> left s' = left s
      else e = NoError \<and> 0 < k \<and> k \<le> avail s \<and> avail s' = avail s - k \<and> fin s' = fin s
        \<and> left s' = left s - k \<and> k \<le> left s)"
    and fin: "\<And>s. fin s \<noteq> NoError"
  shows "\<exists>s'. discard_ReadFrom rd n s = Some ((n + int (avail s), if fin s = EOF then NoError else fin s), s')
     \<and> left s' = left s - avail s"
proof (induction "avail s" arbitrary: n s rule: less_induct)
  case less
  obtain k e s1 where r: "rd 8192 s = ((k, e), s1)" by (metis prod.exhaust)
  note sp = rd [OF r]
  show ?case
  proof (cases "avail s = 0")
    case True
    with sp fin [of s] r show ?thesis
      by (subst discard_ReadFrom.simps) simp
  next
    case False
    with sp have e: "e = NoError" and k: "0 < k" "k \<le> avail s" and s1: "avail s1 = avail s - k" "fin s1 = fin s"
      "left s1 = left s - k" "k \<le> left s"
      by simp_all
    from k s1 have "avail s1 < avail s" by simp
    from less [OF this, of "n + int k"] obtain s2 where
      "discard_ReadFrom rd (n + int k) s1
         = Some ((n + int k + int (avail s1), if fin s1 = EOF then NoError else fin s1), s2)"
      "left s2 = left s1 - avail s1"
      by blast
    moreover have "discard_ReadFrom rd n s = discard_ReadFrom rd (n + int k) s1"
      using r e by (subst discard_ReadFrom.simps) simp
    ultimately show ?thesis
      using k s1 by auto
  qed
qed

lemma LimitedReader_Read_spec:
  assumes "LimitedReader_Read 8192 l = ((k, e), l')"
  shows "if lr_avail l = 0 then k = 0 \<and> e = lr_fin l \<and> blen (R l') = blen (R l)
      else e = NoError \<and> 0 < k \<and> k \<le> lr_avail l \<and> lr_avail l' = lr_avail l - k \<and> lr_fin l' = lr_fin l
        \<and> blen (R l') = blen (R l) - k \<and> k \<le> blen (R l)"
proof (cases "N l \<le> 0")
  case True
  with assms show ?thesis by (simp add: LimitedReader_Read_def lr_avail_def lr_fin_def)
next
  case False
  define plen where "plen = (if int 8192 > N l then nat (N l) else 8192)"
  obtain b' where rd: "body_Read plen (R l) = ((k, e), b')" and l': "l' = l\<lparr>R := b', N := N l - int k\<rparr>"
    using assms False by (auto simp: LimitedReader_Read_def Let_def plen_def split: prod.splits)
  have pos: "0 < plen" and le: "int plen \<le> N l" using False by (simp_all add: plen_def)
  note sp = body_Read_spec [OF pos rd]
  show ?thesis
  proof (cases "blen (R l) = 0")
    case True
    with sp False l' show ?thesis by (simp add: lr_avail_def lr_fin_def)
  next
    case nz: False
    with sp have "e = NoError" "0 < k" "k \<le> plen" "k \<le> blen (R l)" "blen b' = blen (R l) - k"
      "ending b' = ending (R l)"
      by simp_all
    with False le l' nz show ?thesis
      by (auto simp: lr_avail_def lr_fin_def min_def)
  qed
qed

lemma lr_fin_not_NoError: "lr_fin l \<noteq> NoError"
  by (simp add: lr_fin_def end_error_not_NoError)

lemma Copy_body:
  "\<exists>b'. Copy body_Read b = Some ((int (blen b), if ending b = EndOfStream then NoError else OtherError), b')
     \<and> blen b' = 0"
proof -
  have "\<exists>b'. discard_ReadFrom body_Read 0 b
       = Some ((0 + int (blen b), if end_error (ending b) = EOF then NoError else end_error (ending b)), b')
     \<and> blen b' = blen b - blen b"
  proof (rule discard_ReadFrom_spec [where rd = body_Read and avail = blen and fin = "\<lambda>b. end_error (ending b)" and left = blen])
    fix s k e s'
    assume "body_Read 8192 s = ((k, e), s')"
    from body_Read_spec [OF _ this]
    show "if blen s = 0 then k = 0 \<and> e = end_error (ending s) \<and> blen s' = blen s
       else e = NoError \<and> 0 < k \<and> k \<le> blen s \<and> blen s' = blen s - k
         \<and> end_error (ending s') = end_error (ending s) \<and> blen s' = blen s - k \<and> k \<le> blen s"
      by (simp split: if_splits)
  qed (rule end_error_not_NoError)
  then show ?thesis
    by (cases "ending b") (auto simp: Copy_def end_error_def)
qed

lemma Copy_limited:
  "\<exists>l'. Copy LimitedReader_Read l = Some ((int (lr_avail l), if lr_fin l = EOF then NoError else lr_fin l), l')
     \<and> blen (R l') = blen (R l) - lr_avail l"
proof -
  have "\<exists>l'. discard_ReadFrom LimitedReader_Read 0 l
       = Some ((0 + int (lr_avail l), if lr_fin l = EOF then NoError else lr_fin l), l')
     \<and> blen (R l') = blen (R l) - lr_avail l"
    by (rule discard_ReadFrom_spec [where rd = LimitedReader_Read and avail = lr_avail and fin = lr_fin
          and left = "\<lambda>l. blen (R l)"])
       (rule LimitedReader_Read_spec, assumption, rule lr_fin_not_NoError)
  then show ?thesis by (simp add: Copy_def)
qed

lemma CopyN_spec:
  assumes "0 < n"
  shows "\<exists>b'. CopyN src n
       = Some ((int (min (nat n) (blen src)),
                if n \<le> int (blen src) then NoError else end_error (ending src)), b')
     \<and> blen b' = blen src - min (nat n) (blen src)"
proof -
  from Copy_limited [of "\<lparr>R = src, N = n\<rparr>"] obtain l' where
    c: "Copy LimitedReader_Read \<lparr>R = src, N = n\<rparr>
        = Some ((int (min (nat n) (blen src)),
                 if n \<le> int (blen src) then NoError else
                   if end_error (ending src) = EOF then NoError else end_error (ending src)), l')"
    and b: "blen (R l') = blen src - min (nat n) (blen src)"
    by (auto simp: lr_avail_def lr_fin_def)
  show ?thesis
  proof (cases "n \<le> int (blen src)")
    case True
    with assms have "int (min (nat n) (blen src)) = n" by simp
    with c b True show ?thesis by (simp add: CopyN_def)
  next
    case False
    then have "int (min (nat n) (blen src)) < n" "int (min (nat n) (blen src)) \<noteq> n" by simp_all
    with c b False show ?thesis
      by (cases "ending src") (simp_all add: CopyN_def end_error_def)
  qed
qed

section \<open>The SOCKS5 client: properties\<close>

lemmas socks_eval =
  DialSocks5_def readReply_def discardTail_def failed_def conn_Close_def conn_Write_def conn_Read_def
  br_Read_def br_ReadByte_def defaultBufSize_def readFull.simps connectRequest_def SplitHostPort_def
  LastIndexByte_def Atoi_def isDigit_def digitVal_def ParseIP_def parseIPv4_def To4_def To16_def
  v4InV6Prefix_def TrimSpace_def asciiSpace_def spaceRune2_def spaceRune3_def PutUint16_def
  pending_def Let_def

text \<open>
  C1, as stated, fails for a host with white space around it: the host is trimmed before
  it is written.  For the target \<^verbatim>\<open>"example.com :80"\<close> the host \<^verbatim>\<open>"example.com "\<close> is not an
  IP literal and has 12 bytes, but the request carries the length 11 and the 11 bytes of
  \<^verbatim>\<open>"example.com"\<close>, not the 12 raw bytes.
\<close>

theorem untrimmed_host_counterexample:
  "ParseIP (\<lambda>s. None) ''example.com '' = None
   \<and> DialSocks5 (\<lambda>s. None)
        (Some \<lparr>incoming = [[0x05, 0x00], [0x05, 0x00, 0x00, 0x01, 0, 0, 0, 0, 0, 0]],
                wfail = None, written = [], closed = False\<rparr>)
        ''example.com :80''
      = Some \<lparr>err = None,
           conn_state = Some \<lparr>incoming = [], wfail = None,
             written = [[0x05, 0x01, 0x00],
               [0x05, 0x01, 0x00, 0x03, 0x0B, 0x65, 0x78, 0x61, 0x6D, 0x70, 0x6C, 0x65,
                0x2E, 0x63, 0x6F, 0x6D, 0x00, 0x50]],
             closed = False\<rparr>,
           br_dropped = []\<rparr>
   \<and> [0x05, 0x01, 0x00, 0x03, of_nat (length ''example.com '')] @ map of_char ''example.com '' @ [0x00, 0x50]
       \<noteq> [0x05, 0x01, 0x00, 0x03, 0x0B, 0x65, 0x78, 0x61, 0x6D, 0x70, 0x6C, 0x65,
                0x2E, 0x63, 0x6F, 0x6D, 0x00, 0x50 :: byte]"
  by (simp add: socks_eval)

text \<open>
  C1, amended.  Let the greeting be written without error and let the proxy accept it
  (reply \<^verbatim>\<open>05 00\<close>).  For a target that splits into \<open>host\<close> and a port in 1..65535, the
  second buffer written to the connection, the CONNECT request, is
  \<^verbatim>\<open>05 01 00\<close>, the address, and the port with its high byte first, where the address is
  \<^verbatim>\<open>01\<close> and the 4 bytes of a dotted-decimal host; \<^verbatim>\<open>04\<close> and the 16 bytes of an IPv6
  host; and for a host that is not an IP literal \<^verbatim>\<open>03\<close>, one length byte and the bytes of
  the host with the white space around it trimmed (when 1 to 255 bytes remain).  For
  \<^verbatim>\<open>"93.184.216.34:443"\<close> the request is \<^verbatim>\<open>05 01 00 01 5D B8 D8 22 01 BB\<close> and for
  \<^verbatim>\<open>"example.com:80"\<close> it is \<^verbatim>\<open>05 01 00 03 0B 65 78 61 6D 70 6C 65 2E 63 6F 6D 00 50\<close>.
\<close>

theorem connect_request_bytes:
  assumes gw: "wfail c \<noteq> Some (length (written c))"
    and greeting: "take 2 (pending c) = [0x05, 0x00]"
  shows "(\<forall>host portStr port.
            SplitHostPort t = Some (host, portStr) \<and> Atoi portStr = Some port \<and> 1 \<le> port \<and> port \<le> 65535 \<longrightarrow>
            (\<exists>r c'. DialSocks5 p (Some c) t = Some r \<and> conn_state r = Some c'
               \<and> (\<forall>ip4. parseIPv4 host = Some ip4 \<longrightarrow> length ip4 = 4
                     \<and> written c' = written c @ [[0x05, 0x01, 0x00],
                          [0x05, 0x01, 0x00, 0x01] @ ip4 @ [of_int (port div 256), of_int (port mod 256)]])
               \<and> (\<forall>ip16. Option.bind (ParseIP p host) To4 = None
                       \<and> Option.bind (ParseIP p host) To16 = Some ip16 \<longrightarrow>
                     written c' = written c @ [[0x05, 0x01, 0x00],
                          [0x05, 0x01, 0x00, 0x04] @ ip16 @ [of_int (port div 256), of_int (port mod 256)]])
               \<and> (ParseIP p host = None \<and> TrimSpace host \<noteq> [] \<and> length (TrimSpace host) \<le> 255 \<longrightarrow>
                     written c' = written c @ [[0x05, 0x01, 0x00],
                          [0x05, 0x01, 0x00, 0x03, of_nat (length (TrimSpace host))]
                            @ map of_char (TrimSpace host)
                            @ [of_int (port div 256), of_int (port mod 256)]])))
     \<and> (\<exists>r c'. DialSocks5 p (Some c) ''93.184.216.34:443'' = Some r \<and> conn_state r = Some c'
           \<and> written c' = written c @ [[0x05, 0x01, 0x00],
                [0x05, 0x01, 0x00, 0x01, 0x5D, 0xB8, 0xD8, 0x22, 0x01, 0xBB]])
     \<and> (\<exists>r c'. DialSocks5 p (Some c) ''example.com:80'' = Some r \<and> conn_state r = Some c'
           \<and> written c' = written c @ [[0x05, 0x01, 0x00],
                [0x05, 0x01, 0x00, 0x03, 0x0B, 0x65, 0x78, 0x61, 0x6D, 0x70, 0x6C, 0x65,
                 0x2E, 0x63, 0x6F, 0x6D, 0x00, 0x50]])"
proof -
  from take_prefix_nth [OF greeting]
  have g: "2 \<le> length (pending c)" "pending c ! 0 = 0x05" "pending c ! 1 = 0x00"
    by simp_all
  have sent: "\<exists>r c'. DialSocks5 p (Some c) t = Some r \<and> conn_state r = Some c'
      \<and> written c' = written c @ [[0x05, 0x01, 0x00], req]"
    if "connectRequest p t = Inr req" for t req
    using DialSocks5_front [of p c t] gw g that by auto
  have gen: "\<exists>r c'. DialSocks5 p (Some c) t = Some r \<and> conn_state r = Some c'
               \<and> (\<forall>ip4. parseIPv4 host = Some ip4 \<longrightarrow> length ip4 = 4
                     \<and> written c' = written c @ [[0x05, 0x01, 0x00],
                          [0x05, 0x01, 0x00, 0x01] @ ip4 @ [of_int (port div 256), of_int (port mod 256)]])
               \<and> (\<forall>ip16. Option.bind (ParseIP p host) To4 = None
                       \<and> Option.bind (ParseIP p host) To16 = Some ip16 \<longrightarrow>
                     written c' = written c @ [[0x05, 0x01, 0x00],
                          [0x05, 0x01, 0x00, 0x04] @ ip16 @ [of_int (port div 256), of_int (port mod 256)]])
               \<and> (ParseIP p host = None \<and> TrimSpace host \<noteq> [] \<and> length (TrimSpace host) \<le> 255 \<longrightarrow>
                     written c' = written c @ [[0x05, 0x01, 0x00],
                          [0x05, 0x01, 0x00, 0x03, of_nat (length (TrimSpace host))]
                            @ map of_char (TrimSpace host)
                            @ [of_int (port div 256), of_int (port mod 256)]])"
    if tgt: "SplitHostPort t = Some (host, portStr)" "Atoi portStr = Some port" "1 \<le> port" "port \<le> 65535"
    for t host portStr port
  proof -
    from DialSocks5_front [of p c t] obtain r c' where
      d: "DialSocks5 p (Some c) t = Some r" "conn_state r = Some c'" by blast
    have w: "written c' = written c @ [[0x05, 0x01, 0x00], req]" if "connectRequest p t = Inr req" for req
      using sent [OF that] d by auto
    show ?thesis
    proof (intro exI [of _ r] exI [of _ c'] conjI allI impI)
      show "DialSocks5 p (Some c) t = Some r" "conn_state r = Some c'" by (rule d)+
      show "length ip4 = 4" if "parseIPv4 host = Some ip4" for ip4
        by (rule ParseIP_IPv4(3) [OF that])
      show "written c' = written c @ [[0x05, 0x01, 0x00],
          [0x05, 0x01, 0x00, 0x01] @ ip4 @ [of_int (port div 256), of_int (port mod 256)]]"
        if "parseIPv4 host = Some ip4" for ip4
        by (rule w [OF connectRequest_IPv4 [OF tgt that]])
      show "written c' = written c @ [[0x05, 0x01, 0x00],
          [0x05, 0x01, 0x00, 0x04] @ ip16 @ [of_int (port div 256), of_int (port mod 256)]]"
        if "Option.bind (ParseIP p host) To4 = None \<and> Option.bind (ParseIP p host) To16 = Some ip16"
        for ip16
        using that by (intro w connectRequest_IPv6 [OF tgt]) simp_all
      show "written c' = written c @ [[0x05, 0x01, 0x00],
          [0x05, 0x01, 0x00, 0x03, of_nat (length (TrimSpace host))]
            @ map of_char (TrimSpace host) @ [of_int (port div 256), of_int (port mod 256)]]"
        if "ParseIP p host = None \<and> TrimSpace host \<noteq> [] \<and> length (TrimSpace host) \<le> 255"
        using that by (intro w connectRequest_domain [OF tgt]) simp_all
    qed
  qed
  have ex1: "SplitHostPort ''93.184.216.34:443'' = Some (''93.184.216.34'', ''443'')"
    "Atoi ''443'' = Some 443" "parseIPv4 ''93.184.216.34'' = Some [0x5D, 0xB8, 0xD8, 0x22]"
    by code_simp+
  have ex2: "SplitHostPort ''example.com:80'' = Some (''example.com'', ''80'')"
    "Atoi ''80'' = Some 80" "parseIPv4 ''example.com'' = None" "TrimSpace ''example.com'' = ''example.com''"
    by code_simp+
  have dom: "ParseIP p ''example.com'' = None"
    by (simp add: ParseIP_def ex2)
  have r1: "connectRequest p ''93.184.216.34:443''
      = Inr [0x05, 0x01, 0x00, 0x01, 0x5D, 0xB8, 0xD8, 0x22, 0x01, 0xBB]"
    using connectRequest_IPv4 [OF ex1(1,2) _ _ ex1(3), of p] by simp
  have r2: "connectRequest p ''example.com:80''
      = Inr [0x05, 0x01, 0x00, 0x03, 0x0B, 0x65, 0x78, 0x61, 0x6D, 0x70, 0x6C, 0x65,
             0x2E, 0x63, 0x6F, 0x6D, 0x00, 0x50]"
    using connectRequest_domain [OF ex2(1,2) _ _ dom] by (simp add: ex2)
  from gen sent [OF r1] sent [OF r2] show ?thesis
    by blast
qed

theorem connect_request_bytes_witness:
  "\<exists>r c'. DialSocks5 (\<lambda>s. None)
        (Some \<lparr>incoming = [[0x05], [0x00, 0x05], [0x00, 0x00, 0x01, 0x7F, 0x00, 0x00, 0x01, 0x04, 0x38]],
                wfail = None, written = [], closed = False\<rparr>)
        ''93.184.216.34:443'' = Some r \<and> conn_state r = Some c'
      \<and> written c' = [[0x05, 0x01, 0x00], [0x05, 0x01, 0x00, 0x01, 0x5D, 0xB8, 0xD8, 0x22, 0x01, 0xBB]]"
  using connect_request_bytes [of
      "\<lparr>incoming = [[0x05], [0x00, 0x05], [0x00, 0x00, 0x01, 0x7F, 0x00, 0x00, 0x01, 0x04, 0x38]],
                wfail = None, written = [], closed = False\<rparr>" "''93.184.216.34:443''" "\<lambda>s. None"]
  by (simp add: pending_def)

text \<open>
  C3. Let the greeting be written without error and let the proxy answer with two bytes
  \<open>a\<close>, \<open>b\<close>, however they arrive.  If they are not \<^verbatim>\<open>05 00\<close>, then \<^verbatim>\<open>DialSocks5\<close> returns
  the negotiation error, the connection is closed, and the greeting is the only thing
  ever written to it: no CONNECT request is sent.
\<close>

theorem greeting_reply_rejected:
  assumes "wfail c \<noteq> Some (length (written c))"
    and "take 2 (pending c) = [a, b]"
    and "a \<noteq> 0x05 \<or> b \<noteq> 0x00"
  shows "\<exists>r c'. DialSocks5 p (Some c) t = Some r \<and> err r = Some AuthNegotiationFailed
     \<and> conn_state r = Some c' \<and> closed c' \<and> written c' = written c @ [[0x05, 0x01, 0x00]]"
proof -
  from take_prefix_nth [OF assms(2)] have "2 \<le> length (pending c)" "pending c ! 0 = a" "pending c ! 1 = b"
    by simp_all
  with assms(1,3) DialSocks5_front [of p c t] show ?thesis
    by auto
qed

theorem greeting_reply_rejected_witness:
  "\<exists>r c'. DialSocks5 (\<lambda>s. None)
       (Some \<lparr>incoming = [[0x05], [0x01, 0x07]], wfail = None, written = [], closed = False\<rparr>)
       ''example.com:80'' = Some r
     \<and> err r = Some AuthNegotiationFailed \<and> conn_state r = Some c' \<and> closed c'
     \<and> written c' = [[0x05, 0x01, 0x00]]"
  using greeting_reply_rejected [of "\<lparr>incoming = [[0x05], [0x01, 0x07]], wfail = None, written = [], closed = False\<rparr>"
      "0x05" "0x01" "\<lambda>s. None" "''example.com:80''"]
  by (simp add: pending_def)

text \<open>
  C4. Let the handshake reach the CONNECT reply (greeting written and accepted, target
  address valid, request written), and let the reply header be \<^verbatim>\<open>05 code rsv atyp\<close> with
  a status byte \<open>code\<close> other than 0, whatever \<open>rsv\<close>, \<open>atyp\<close> and the bytes behind the
  header are.  Then \<^verbatim>\<open>DialSocks5\<close> fails with the error that carries \<open>code\<close>, and the
  connection is closed: no usable connection is returned.  For the status byte \<^verbatim>\<open>05\<close> the
  error carries the code 5.
\<close>

theorem connect_status_reported:
  assumes "wfail c \<noteq> Some (length (written c))" and "wfail c \<noteq> Some (Suc (length (written c)))"
    and "take 2 (pending c) = [0x05, 0x00]"
    and "connectRequest p t = Inr req"
    and "take 4 (drop 2 (pending c)) = [0x05, code, rsv, atyp]"
    and "code \<noteq> 0x00"
  shows "\<exists>r c'. DialSocks5 p (Some c) t = Some r \<and> err r = Some (ConnectFailed code)
     \<and> conn_state r = Some c' \<and> closed c'"
proof -
  from take_prefix_nth [OF assms(3)] have g: "2 \<le> length (pending c)" "pending c ! 0 = 0x05" "pending c ! 1 = 0x00"
    by simp_all
  from DialSocks5_to_reply [OF assms(1) g assms(4) assms(2)] obtain c3 where
    d: "DialSocks5 p (Some c) t = readReply (c3, [])" and s: "br_stream (c3, []) = drop 2 (pending c)"
    by blast
  define rs where "rs = drop 2 (pending c)"
  from take_prefix_nth [OF assms(5) [folded rs_def]] have h: "4 \<le> length rs" "rs ! 0 = 0x05" "rs ! 1 = code"
    by simp_all
  with readReply_spec [of "(c3, [])", unfolded s, folded rs_def] assms(6) show ?thesis
    unfolding d by auto
qed

theorem connect_status_reported_witness:
  "\<exists>r c'. DialSocks5 (\<lambda>s. None)
       (Some \<lparr>incoming = [[0x05, 0x00], [0x05, 0x05, 0x00, 0x01, 0, 0, 0, 0, 0, 0]],
               wfail = None, written = [], closed = False\<rparr>)
       ''example.com:80'' = Some r
     \<and> err r = Some (ConnectFailed 0x05) \<and> conn_state r = Some c' \<and> closed c'"
  using connect_status_reported [of "\<lparr>incoming = [[0x05, 0x00], [0x05, 0x05, 0x00, 0x01, 0, 0, 0, 0, 0, 0]],
               wfail = None, written = [], closed = False\<rparr>" "\<lambda>s. None" "''example.com:80''"
       "[0x05, 0x01, 0x00, 0x03, 0x0B, 0x65, 0x78, 0x61, 0x6D, 0x70, 0x6C, 0x65, 0x2E, 0x63, 0x6F, 0x6D, 0x00, 0x50]"
       "0x05" "0x00" "0x01"]
  by (simp add: socks_eval)

text \<open>
  C5. Let the handshake reach the CONNECT reply and let its header be \<^verbatim>\<open>05 00 rsv atyp\<close>;
  \<open>rest\<close> is everything the proxy sends after the header.  Then what \<^verbatim>\<open>DialSocks5\<close>
  reads and discards after the header is fixed by \<open>atyp\<close> alone (and, for a domain, by the
  length byte): 4 + 2 bytes for type \<^verbatim>\<open>01\<close>, 16 + 2 bytes for type \<^verbatim>\<open>04\<close>, and for type
  \<^verbatim>\<open>03\<close> the length byte \<open>l\<close>, \<open>l\<close> bytes and 2 bytes.  It succeeds exactly when that many
  bytes arrive, and then the buffered reader stands right behind them: its buffer followed
  by what the connection has still to deliver is \<open>rest\<close> without them.  For any other
  \<open>atyp\<close> it fails with the unknown-address-type error; every failure closes the
  connection.
\<close>

theorem bound_address_discarded:
  assumes gw: "wfail c \<noteq> Some (length (written c))"
    and cw: "wfail c \<noteq> Some (Suc (length (written c)))"
    and greeting: "take 2 (pending c) = [0x05, 0x00]"
    and target: "connectRequest p t = Inr req"
    and header: "take 4 (drop 2 (pending c)) = [0x05, 0x00, rsv, atyp]"
    and rest: "drop 6 (pending c) = rest"
  shows "\<exists>r c'. DialSocks5 p (Some c) t = Some r \<and> conn_state r = Some c'
     \<and> (atyp = 0x01 \<longrightarrow>
           (if length rest < 4 + 2 then err r = Some ReplyTailRead \<and> closed c'
            else err r = None \<and> br_dropped r @ pending c' = drop (4 + 2) rest))
     \<and> (atyp = 0x04 \<longrightarrow>
           (if length rest < 16 + 2 then err r = Some ReplyTailRead \<and> closed c'
            else err r = None \<and> br_dropped r @ pending c' = drop (16 + 2) rest))
     \<and> (atyp = 0x03 \<longrightarrow>
           (case rest of
              [] \<Rightarrow> err r = Some ReplyDomainLenRead \<and> closed c'
            | l # rest' \<Rightarrow>
                if length rest' < unat l + 2 then err r = Some ReplyTailRead \<and> closed c'
                else err r = None \<and> br_dropped r @ pending c' = drop (unat l + 2) rest'))
     \<and> (atyp \<noteq> 0x01 \<and> atyp \<noteq> 0x04 \<and> atyp \<noteq> 0x03 \<longrightarrow>
           err r = Some UnknownAddressType \<and> closed c')"
proof -
  from take_prefix_nth [OF greeting]
  have g: "2 \<le> length (pending c)" "pending c ! 0 = 0x05" "pending c ! 1 = 0x00"
    by simp_all
  from DialSocks5_to_reply [OF gw g target cw] obtain c3 where
    d: "DialSocks5 p (Some c) t = readReply (c3, [])" and s: "br_stream (c3, []) = drop 2 (pending c)"
    by blast
  have "drop 4 (drop 2 (pending c)) = rest" using rest by simp
  with header have rs: "drop 2 (pending c) = [0x05, 0x00, rsv, atyp] @ rest"
    by (metis append_take_drop_id)
  let ?rs = "drop 2 (pending c)"
  from readReply_spec [of "(c3, [])", unfolded s] obtain r c' where
    rr: "readReply (c3, []) = Some r" and cs: "conn_state r = Some c'"
    and cl: "closed c' = (closed (fst (c3, [] :: byte list)) \<or> err r \<noteq> None)"
    and chain0: "if length ?rs < 4 then err r = Some ConnectRead
         else if ?rs ! 0 \<noteq> 0x05 then err r = Some InvalidVersionInReply
         else if ?rs ! 1 \<noteq> 0x00 then err r = Some (ConnectFailed (?rs ! 1))
         else if ?rs ! 3 = 0x01 then
           (if length ?rs < 4 + 4 + 2 then err r = Some ReplyTailRead
            else err r = None \<and> br_dropped r @ pending c' = drop (4 + 4 + 2) ?rs)
         else if ?rs ! 3 = 0x04 then
           (if length ?rs < 4 + 16 + 2 then err r = Some ReplyTailRead
            else err r = None \<and> br_dropped r @ pending c' = drop (4 + 16 + 2) ?rs)
         else if ?rs ! 3 = 0x03 then
           (if length ?rs < 5 then err r = Some ReplyDomainLenRead
            else if length ?rs < 4 + 1 + unat (?rs ! 4) + 2 then err r = Some ReplyTailRead
            else err r = None \<and> br_dropped r @ pending c' = drop (4 + 1 + unat (?rs ! 4) + 2) ?rs)
         else err r = Some UnknownAddressType"
    by blast
  have len: "length ?rs = 4 + length rest"
    and hd: "?rs ! 0 = 0x05" "?rs ! 1 = 0x00" "?rs ! 3 = atyp"
    and dr: "drop (4 + 4 + 2) ?rs = drop (4 + 2) rest" "drop (4 + 16 + 2) ?rs = drop (16 + 2) rest"
    by (simp_all add: rs)
  have dom: "?rs ! 4 = l" "drop (4 + 1 + unat l + 2) ?rs = drop (unat l + 2) rest'"
    if "rest = l # rest'" for l rest'
    using that by (simp_all add: rs drop_Cons')
  show ?thesis
    unfolding d
  proof (intro exI [of _ r] exI [of _ c'] conjI impI)
    show "readReply (c3, []) = Some r" by (rule rr)
    show "conn_state r = Some c'" by (rule cs)
    show "if length rest < 4 + 2 then err r = Some ReplyTailRead \<and> closed c'
            else err r = None \<and> br_dropped r @ pending c' = drop (4 + 2) rest" if "atyp = 0x01"
      using that chain0 cl unfolding len hd dr by (simp split: if_splits)
    show "if length rest < 16 + 2 then err r = Some ReplyTailRead \<and> closed c'
            else err r = None \<and> br_dropped r @ pending c' = drop (16 + 2) rest" if "atyp = 0x04"
      using that chain0 cl unfolding len hd dr by (simp split: if_splits)
    show "case rest of
              [] \<Rightarrow> err r = Some ReplyDomainLenRead \<and> closed c'
            | l # rest' \<Rightarrow>
                if length rest' < unat l + 2 then err r = Some ReplyTailRead \<and> closed c'
                else err r = None \<and> br_dropped r @ pending c' = drop (unat l + 2) rest'" if "atyp = 0x03"
    proof (cases rest)
      case Nil
      with that chain0 cl show ?thesis unfolding len hd by simp
    next
      case (Cons l rest')
      with that chain0 cl show ?thesis unfolding len hd dom [OF Cons] by (simp split: if_splits)
    qed
    show "err r = Some UnknownAddressType" "closed c'"
      if "atyp \<noteq> 0x01 \<and> atyp \<noteq> 0x04 \<and> atyp \<noteq> 0x03"
      using that chain0 cl unfolding len hd by simp_all
  qed
qed

theorem bound_address_discarded_witness:
  "\<exists>r c'. DialSocks5 (\<lambda>s. None)
       (Some \<lparr>incoming = [[0x05, 0x00], [0x05, 0x00, 0x00, 0x03], [0x02, 0x68, 0x69, 0x1F, 0x90, 0x07], [0x08]],
               wfail = None, written = [], closed = False\<rparr>)
       ''example.com:80'' = Some r \<and> conn_state r = Some c'
     \<and> err r = None \<and> br_dropped r @ pending c' = [0x07, 0x08]"
  using bound_address_discarded [of
      "\<lparr>incoming = [[0x05, 0x00], [0x05, 0x00, 0x00, 0x03], [0x02, 0x68, 0x69, 0x1F, 0x90, 0x07], [0x08]],
               wfail = None, written = [], closed = False\<rparr>" "\<lambda>s. None" "''example.com:80''"
      "[0x05, 0x01, 0x00, 0x03, 0x0B, 0x65, 0x78, 0x61, 0x6D, 0x70, 0x6C, 0x65, 0x2E, 0x63, 0x6F, 0x6D, 0x00, 0x50]"
      "0x00" "0x03" "[0x02, 0x68, 0x69, 0x1F, 0x90, 0x07, 0x08]"]
  by (simp add: socks_eval)




text \<open>
  C10. The proxy answers the greeting, and then sends the 10-byte CONNECT reply and two
  more bytes, \<^verbatim>\<open>48 49\<close>, that arrive in one chunk.  \<^verbatim>\<open>DialSocks5\<close> succeeds.  The buffered
  reader took the whole chunk from the connection, so the connection that is returned has
  nothing left to deliver, and the two bytes sit in the reader that is dropped on return:
  the caller never sees them.
\<close>

theorem buffered_surplus_lost:
  "DialSocks5 (\<lambda>s. None)
     (Some \<lparr>incoming = [[0x05, 0x00], [0x05, 0x00, 0x00, 0x01, 0, 0, 0, 0, 0, 0, 0x48, 0x49]],
             wfail = None, written = [], closed = False\<rparr>)
     ''example.com:80''
   = Some \<lparr>err = None,
           conn_state = Some \<lparr>incoming = [], wfail = None,
             written = [[0x05, 0x01, 0x00],
               [0x05, 0x01, 0x00, 0x03, 0x0B, 0x65, 0x78, 0x61, 0x6D, 0x70, 0x6C, 0x65, 0x2E, 0x63, 0x6F, 0x6D, 0x00, 0x50]],
             closed = False\<rparr>,
           br_dropped = [0x48, 0x49]\<rparr>"
  by (simp add: socks_eval)

theorem buffered_surplus_lost_witness:
  "\<exists>r c'. DialSocks5 (\<lambda>s. None)
     (Some \<lparr>incoming = [[0x05, 0x00], [0x05, 0x00, 0x00, 0x01, 0, 0, 0, 0, 0, 0, 0x48, 0x49]],
             wfail = None, written = [], closed = False\<rparr>)
     ''example.com:80'' = Some r \<and> err r = None \<and> conn_state r = Some c'
     \<and> pending c' = [] \<and> br_dropped r = [0x48, 0x49]"
  using buffered_surplus_lost by (simp add: pending_def)

section \<open>The process supervisor: properties\<close>

lemma coerceUTF8_ascii:
  "coerceUTF8 ''log'' = ''log''" "coerceUTF8 ''inbounds'' = ''inbounds''"
  "coerceUTF8 ''outbounds'' = ''outbounds''" "coerceUTF8 ''loglevel'' = ''loglevel''"
  by code_simp+

text \<open>
  C2 does not hold of the code.  Whenever \<^verbatim>\<open>Start\<close> returns a \<^verbatim>\<open>Started\<close>, the three paths
  it returns lie in the fresh directory, but the configuration file it has written there
  has a log section with the single field \<^verbatim>\<open>loglevel\<close>: the fields \<^verbatim>\<open>access\<close> and
  \<^verbatim>\<open>error\<close> are absent.  The source sets them in \<^verbatim>\<open>cfg\<close> after \<^verbatim>\<open>json.MarshalIndent\<close> has
  already produced the text that is written.
\<close>

theorem Start_persists_stale_log_section:
  assumes "Start r env outbound = (Inr st, files)"
  shows "\<exists>dir level cfg logsec. MkdirTemp env = Some dir
     \<and> ConfigPath st = Join dir ''config.json'' \<and> LogPath st = Join dir ''core.log''
     \<and> AccessLogPath st = Join dir ''access.log''
     \<and> map_of files (ConfigPath st) = Some (JSONText cfg)
     \<and> json_field ''log'' cfg = Some logsec
     \<and> logsec = JObject [(''loglevel'', JString level)]
     \<and> json_field ''access'' logsec = None \<and> json_field ''error'' logsec = None"
  using assms
  by (auto simp: Start_def Let_def MarshalIndent_def json_field_def coerceUTF8_ascii
      split: if_splits option.splits)

theorem Start_persists_stale_log_section_witness:
  "\<exists>cfg logsec. map_of (snd (Start
        \<lparr>CorePath = ''/usr/local/bin/xray'', Port = 1080, InboundProtocol = ''socks'', LogLevel = ''info''\<rparr>
        \<lparr>MkdirTemp = Some ''/tmp/proxy-node-1'', WriteFile_ok = True, Create_ok = True, cmd_Start_ok = True\<rparr>
        (Some [(''protocol'', JString ''vless'')]))) ''/tmp/proxy-node-1/config.json'' = Some (JSONText cfg)
      \<and> json_field ''log'' cfg = Some logsec
      \<and> logsec = JObject [(''loglevel'', JString ''info'')]
      \<and> json_field ''access'' logsec = None \<and> json_field ''error'' logsec = None"
proof -
  have ev: "Start \<lparr>CorePath = ''/usr/local/bin/xray'', Port = 1080, InboundProtocol = ''socks'', LogLevel = ''info''\<rparr>
     \<lparr>MkdirTemp = Some ''/tmp/proxy-node-1'', WriteFile_ok = True, Create_ok = True, cmd_Start_ok = True\<rparr>
     (Some [(''protocol'', JString ''vless'')])
   = (Inr \<lparr>ConfigPath = ''/tmp/proxy-node-1/config.json'', LogPath = ''/tmp/proxy-node-1/core.log'',
            AccessLogPath = ''/tmp/proxy-node-1/access.log''\<rparr>,
      [(''/tmp/proxy-node-1/config.json'',
        JSONText (JObject
          [(''log'', JObject [(''loglevel'', JString ''info'')]),
           (''inbounds'', JArray [JObject
              [(''listen'', JString ''127.0.0.1''), (''port'', JNumber 1080),
               (''protocol'', JString ''socks''), (''settings'', JObject [(''udp'', JBool False)])]]),
           (''outbounds'', JArray
              [JObject [(''protocol'', JString ''vless'')],
               JObject [(''tag'', JString ''direct''), (''protocol'', JString ''freedom'')]])])),
       (''/tmp/proxy-node-1/core.log'', Bytes [])])"
    by code_simp
  from Start_persists_stale_log_section [OF ev] show ?thesis
    unfolding ev by (auto simp: json_field_def)
qed

text \<open>
  C9. \<^verbatim>\<open>ReadLogTail\<close> is a total function into strings, so it never fails.  For a nil
  handle, an empty log path, or a log file that \<^verbatim>\<open>os.ReadFile\<close> cannot read, it returns
  the empty string.  Otherwise it returns the file contents when they are at most 4000
  bytes long, and exactly their last 4000 bytes when they are longer.
\<close>

theorem ReadLogTail_last_4000:
  "(s = None \<or> (\<exists>st. s = Some st \<and> (LogPath st = '''' \<or> readFile (LogPath st) = None))
      \<longrightarrow> ReadLogTail readFile s = '''')
   \<and> (\<forall>st b. s = Some st \<and> LogPath st \<noteq> '''' \<and> readFile (LogPath st) = Some b \<longrightarrow>
          length (ReadLogTail readFile s) \<le> 4000
        \<and> (length b \<le> 4000 \<longrightarrow> ReadLogTail readFile s = b)
        \<and> (4000 < length b \<longrightarrow>
              length (ReadLogTail readFile s) = 4000
            \<and> (\<exists>front. b = front @ ReadLogTail readFile s)))"
proof (intro conjI impI allI)
  assume "s = None \<or> (\<exists>st. s = Some st \<and> (LogPath st = '''' \<or> readFile (LogPath st) = None))"
  then show "ReadLogTail readFile s = ''''"
    by (auto simp: ReadLogTail_def)
next
  fix st b
  assume h: "s = Some st \<and> LogPath st \<noteq> '''' \<and> readFile (LogPath st) = Some b"
  then have eq: "ReadLogTail readFile s = (if length b > 4000 then drop (length b - 4000) b else b)"
    by (simp add: ReadLogTail_def)
  show "length (ReadLogTail readFile s) \<le> 4000"
    by (simp add: eq)
  show "ReadLogTail readFile s = b" if "length b \<le> 4000"
    using that by (simp add: eq)
  show "length (ReadLogTail readFile s) = 4000" if "4000 < length b"
    using that by (simp add: eq)
  show "\<exists>front. b = front @ ReadLogTail readFile s" if "4000 < length b"
  proof
    show "b = take (length b - 4000) b @ ReadLogTail readFile s"
      using that by (simp add: eq)
  qed
qed

theorem ReadLogTail_last_4000_witness:
  "ReadLogTail (\<lambda>p. None) None = ''''
   \<and> ReadLogTail (\<lambda>p. if p = ''/tmp/proxy-node-1/core.log'' then Some ''bind: address in use'' else None)
        (Some \<lparr>ConfigPath = ''/tmp/proxy-node-1/config.json'', LogPath = ''/tmp/proxy-node-1/core.log'',
                AccessLogPath = ''/tmp/proxy-node-1/access.log''\<rparr>) = ''bind: address in use''
   \<and> length (ReadLogTail (\<lambda>p. Some (replicate 4001 CHR ''x''))
        (Some \<lparr>ConfigPath = ''c'', LogPath = ''l'', AccessLogPath = ''a''\<rparr>)) = 4000"
  using ReadLogTail_last_4000 [of None "\<lambda>p. None"]
    ReadLogTail_last_4000 [of "Some \<lparr>ConfigPath = ''/tmp/proxy-node-1/config.json'',
        LogPath = ''/tmp/proxy-node-1/core.log'', AccessLogPath = ''/tmp/proxy-node-1/access.log''\<rparr>"
      "\<lambda>p. if p = ''/tmp/proxy-node-1/core.log'' then Some ''bind: address in use'' else None"]
    ReadLogTail_last_4000 [of "Some \<lparr>ConfigPath = ''c'', LogPath = ''l'', AccessLogPath = ''a''\<rparr>"
      "\<lambda>p. Some (replicate 4001 CHR ''x'')"]
  by simp

section \<open>The metered relay: properties\<close>

text \<open>
  C8. A relayed connection changes the meter by one \<^const>\<open>addUp\<close> of the count copied
  from client to target and one \<^const>\<open>addDown\<close> of the count copied from target to
  client, in either order with the same result; each is skipped when its count is not
  greater than zero, and a connection whose dial fails changes nothing.  The counters are
  64-bit; a total of \<open>2\<^sup>6\<^sup>4\<close> bytes is out of the reach of any relay, and below it
  a counter does not decrease, neither at the single addition nor over the connection.  A
  connection that sends 1000 bytes client to target and receives 2000 bytes target to
  client adds exactly 1000 to the uplink and 2000 to the downlink counter.
\<close>

theorem relayConn_adds_counts:
  "relayConn True sched nUp nDown m = addDown nDown (addUp nUp m)
   \<and> relayConn False sched nUp nDown m = m
   \<and> (\<not> 0 <s nUp \<longrightarrow> addUp nUp m = m) \<and> (\<not> 0 <s nDown \<longrightarrow> addDown nDown m = m)
   \<and> upTotal (relayConn True sched nUp nDown m) = upTotal m + (if 0 <s nUp then nUp else 0)
   \<and> downTotal (relayConn True sched nUp nDown m) = downTotal m + (if 0 <s nDown then nDown else 0)
   \<and> (unat (upTotal m) + unat nUp < 2 ^ 64 \<longrightarrow>
        upTotal m \<le> upTotal (addUp nUp m)
      \<and> upTotal m \<le> upTotal (relayConn True sched nUp nDown m))
   \<and> (unat (downTotal m) + unat nDown < 2 ^ 64 \<longrightarrow>
        downTotal m \<le> downTotal (addDown nDown m)
      \<and> downTotal m \<le> downTotal (relayConn True sched nUp nDown m))
   \<and> upTotal (relayConn True sched 1000 2000 m) = upTotal m + 1000
   \<and> downTotal (relayConn True sched 1000 2000 m) = downTotal m + 2000
   \<and> (unat (upTotal m) + 1000 < 2 ^ 64 \<longrightarrow>
        unat (upTotal (relayConn True sched 1000 2000 m)) = unat (upTotal m) + 1000)
   \<and> (unat (downTotal m) + 2000 < 2 ^ 64 \<longrightarrow>
        unat (downTotal (relayConn True sched 1000 2000 m)) = unat (downTotal m) + 2000)"
proof -
  have up: "upTotal (relayConn True s a b m) = upTotal m + (if 0 <s a then a else 0)"
    and down: "downTotal (relayConn True s a b m) = downTotal m + (if 0 <s b then b else 0)"
    for s a b
    by (simp_all add: relayConn_def addUp_def addDown_def)
  have le: "x \<le> x + n" if "unat x + unat n < 2 ^ 64" for x n :: "64 word"
    using that by (simp add: no_olen_add_nat)
  have eq: "unat (x + n) = unat x + unat n" if "unat x + unat n < 2 ^ 64" for x n :: "64 word"
    using that unat_add_lem [of x n] by simp
  have pos: "(0 :: 64 word) <s 1000" "(0 :: 64 word) <s 2000"
    by (simp_all add: word_sless_alt)
  show ?thesis
  proof (intro conjI impI)
    show "relayConn True sched nUp nDown m = addDown nDown (addUp nUp m)"
      by (simp add: relayConn_def addUp_def addDown_def)
    show "relayConn False sched nUp nDown m = m"
      by (simp add: relayConn_def)
    show "addUp nUp m = m" if "\<not> 0 <s nUp"
      using that by (simp add: addUp_def)
    show "addDown nDown m = m" if "\<not> 0 <s nDown"
      using that by (simp add: addDown_def)
    show "upTotal (relayConn True sched nUp nDown m) = upTotal m + (if 0 <s nUp then nUp else 0)"
      by (rule up)
    show "downTotal (relayConn True sched nUp nDown m) = downTotal m + (if 0 <s nDown then nDown else 0)"
      by (rule down)
    show "upTotal m \<le> upTotal (addUp nUp m)" if "unat (upTotal m) + unat nUp < 2 ^ 64"
      using le [OF that] by (simp add: addUp_def)
    show "upTotal m \<le> upTotal (relayConn True sched nUp nDown m)"
      if "unat (upTotal m) + unat nUp < 2 ^ 64"
      using le [OF that] by (simp add: up)
    show "downTotal m \<le> downTotal (addDown nDown m)" if "unat (downTotal m) + unat nDown < 2 ^ 64"
      using le [OF that] by (simp add: addDown_def)
    show "downTotal m \<le> downTotal (relayConn True sched nUp nDown m)"
      if "unat (downTotal m) + unat nDown < 2 ^ 64"
      using le [OF that] by (simp add: down)
    show "upTotal (relayConn True sched 1000 2000 m) = upTotal m + 1000"
      by (simp add: up pos)
    show "downTotal (relayConn True sched 1000 2000 m) = downTotal m + 2000"
      by (simp add: down pos)
    show "unat (upTotal (relayConn True sched 1000 2000 m)) = unat (upTotal m) + 1000"
      if "unat (upTotal m) + 1000 < 2 ^ 64"
      using eq [of "upTotal m" 1000] that by (simp add: up pos)
    show "unat (downTotal (relayConn True sched 1000 2000 m)) = unat (downTotal m) + 2000"
      if "unat (downTotal m) + 2000 < 2 ^ 64"
      using eq [of "downTotal m" 2000] that by (simp add: down pos)
  qed
qed

theorem relayConn_adds_counts_witness:
  "relayConn True False 1000 2000 \<lparr>upTotal = 5, downTotal = 7\<rparr> = \<lparr>upTotal = 1005, downTotal = 2007\<rparr>
   \<and> unat (upTotal (relayConn True False 1000 2000 \<lparr>upTotal = 5, downTotal = 7\<rparr>)) = 5 + 1000
   \<and> unat (downTotal (relayConn True False 1000 2000 \<lparr>upTotal = 5, downTotal = 7\<rparr>)) = 7 + 2000
   \<and> (5 :: 64 word) \<le> upTotal (relayConn True False 1000 2000 \<lparr>upTotal = 5, downTotal = 7\<rparr>)"
  using relayConn_adds_counts [of False 1000 2000 "\<lparr>upTotal = 5, downTotal = 7\<rparr>"]
  by (simp add: relayConn_def addUp_def addDown_def word_sless_alt)

section \<open>The speed harness: properties\<close>

text \<open>
  C7. With a status of 400 or more \<^verbatim>\<open>speedHTTP\<close> fails and the body is untouched.  With a
  lesser status and a budget \<open>maxBytes > 0\<close> it returns, reads at most \<open>maxBytes\<close> bytes of
  the body, and reports \<open>maxBytes\<close> when the body has that many; a shorter body that ends
  with \<^verbatim>\<open>io.EOF\<close> is not an error and its length is reported (one that breaks off with
  another error is a failure).  With a budget of 0 or less it reads the whole body.  So a
  budget of 100 against a longer body gives exactly 100 bytes read, and a budget of 0
  against a 50-byte body that ends with \<^verbatim>\<open>io.EOF\<close> gives exactly 50.
\<close>

theorem speedHTTP_budget:
  "(400 \<le> StatusCode resp \<longrightarrow>
      speedHTTP True (Some resp) maxBytes
        = Some \<lparr>outcome = Inl (UnexpectedStatus (StatusCode resp)), body_after = Some (Body resp)\<rparr>)
   \<and> (StatusCode resp < 400 \<and> 0 < maxBytes \<longrightarrow>
        (\<exists>b'. speedHTTP True (Some resp) maxBytes
            = Some \<lparr>outcome =
                      (if maxBytes \<le> int (blen (Body resp)) then Inr maxBytes
                       else if ending (Body resp) = EndOfStream then Inr (int (blen (Body resp)))
                       else Inl CopyFailed),
                    body_after = Some b'\<rparr>
          \<and> blen b' \<le> blen (Body resp)
          \<and> int (blen (Body resp) - blen b') \<le> maxBytes))
   \<and> (StatusCode resp < 400 \<and> maxBytes \<le> 0 \<longrightarrow>
        (\<exists>b'. speedHTTP True (Some resp) maxBytes
            = Some \<lparr>outcome =
                      (if ending (Body resp) = EndOfStream then Inr (int (blen (Body resp)))
                       else Inl CopyFailed),
                    body_after = Some b'\<rparr>
          \<and> blen b' = 0))
   \<and> (StatusCode resp < 400 \<and> 100 < blen (Body resp) \<longrightarrow>
        (\<exists>b'. speedHTTP True (Some resp) 100 = Some \<lparr>outcome = Inr 100, body_after = Some b'\<rparr>
          \<and> blen (Body resp) - blen b' = 100))
   \<and> (StatusCode resp < 400 \<and> blen (Body resp) = 50 \<and> ending (Body resp) = EndOfStream \<longrightarrow>
        (\<exists>b'. speedHTTP True (Some resp) 0 = Some \<lparr>outcome = Inr 50, body_after = Some b'\<rparr>
          \<and> blen b' = 0))"
proof -
  have budget: "\<exists>b'. speedHTTP True (Some resp) n
            = Some \<lparr>outcome =
                      (if n \<le> int (blen (Body resp)) then Inr n
                       else if ending (Body resp) = EndOfStream then Inr (int (blen (Body resp)))
                       else Inl CopyFailed),
                    body_after = Some b'\<rparr>
          \<and> blen b' = blen (Body resp) - min (nat n) (blen (Body resp))"
    if "StatusCode resp < 400" "0 < n" for n
  proof -
    from CopyN_spec [OF that(2), of "Body resp"] obtain b' where
      c: "CopyN (Body resp) n = Some ((int (min (nat n) (blen (Body resp))),
                if n \<le> int (blen (Body resp)) then NoError else end_error (ending (Body resp))), b')"
      and b: "blen b' = blen (Body resp) - min (nat n) (blen (Body resp))"
      by blast
    show ?thesis
    proof (cases "n \<le> int (blen (Body resp))")
      case True
      with that have "int (min (nat n) (blen (Body resp))) = n" by simp
      with c b that True show ?thesis by (simp add: speedHTTP_def)
    next
      case False
      then have "min (nat n) (blen (Body resp)) = blen (Body resp)" by simp
      with c b that False show ?thesis
        by (cases "ending (Body resp)") (simp_all add: speedHTTP_def end_error_def)
    qed
  qed
  have full: "\<exists>b'. speedHTTP True (Some resp) n
            = Some \<lparr>outcome =
                      (if ending (Body resp) = EndOfStream then Inr (int (blen (Body resp)))
                       else Inl CopyFailed),
                    body_after = Some b'\<rparr>
          \<and> blen b' = 0"
    if "StatusCode resp < 400" "n \<le> 0" for n
    using Copy_body [of "Body resp"] that by (auto simp: speedHTTP_def)
  show ?thesis
  proof (intro conjI impI)
    show "speedHTTP True (Some resp) maxBytes
        = Some \<lparr>outcome = Inl (UnexpectedStatus (StatusCode resp)), body_after = Some (Body resp)\<rparr>"
      if "400 \<le> StatusCode resp"
      using that by (simp add: speedHTTP_def)
    show "\<exists>b'. speedHTTP True (Some resp) maxBytes
            = Some \<lparr>outcome =
                      (if maxBytes \<le> int (blen (Body resp)) then Inr maxBytes
                       else if ending (Body resp) = EndOfStream then Inr (int (blen (Body resp)))
                       else Inl CopyFailed),
                    body_after = Some b'\<rparr>
          \<and> blen b' \<le> blen (Body resp)
          \<and> int (blen (Body resp) - blen b') \<le> maxBytes"
      if "StatusCode resp < 400 \<and> 0 < maxBytes"
    proof -
      from budget [of maxBytes] that obtain b' where
        "speedHTTP True (Some resp) maxBytes
            = Some \<lparr>outcome =
                      (if maxBytes \<le> int (blen (Body resp)) then Inr maxBytes
                       else if ending (Body resp) = EndOfStream then Inr (int (blen (Body resp)))
                       else Inl CopyFailed),
                    body_after = Some b'\<rparr>"
        "blen b' = blen (Body resp) - min (nat maxBytes) (blen (Body resp))"
        by blast
      moreover from this(2) that have "blen b' \<le> blen (Body resp)"
        "int (blen (Body resp) - blen b') \<le> maxBytes"
        by linarith+
      ultimately show ?thesis by blast
    qed
    show "\<exists>b'. speedHTTP True (Some resp) maxBytes
            = Some \<lparr>outcome =
                      (if ending (Body resp) = EndOfStream then Inr (int (blen (Body resp)))
                       else Inl CopyFailed),
                    body_after = Some b'\<rparr>
          \<and> blen b' = 0"
      if "StatusCode resp < 400 \<and> maxBytes \<le> 0"
      using full [of maxBytes] that by simp
    show "\<exists>b'. speedHTTP True (Some resp) 100 = Some \<lparr>outcome = Inr 100, body_after = Some b'\<rparr>
          \<and> blen (Body resp) - blen b' = 100"
      if "StatusCode resp < 400 \<and> 100 < blen (Body resp)"
      using budget [of 100] that by auto
    show "\<exists>b'. speedHTTP True (Some resp) 0 = Some \<lparr>outcome = Inr 50, body_after = Some b'\<rparr>
          \<and> blen b' = 0"
      if "StatusCode resp < 400 \<and> blen (Body resp) = 50 \<and> ending (Body resp) = EndOfStream"
      using full [of 0] that by auto
  qed
qed

theorem speedHTTP_budget_witness:
  "speedHTTP True
      (Some \<lparr>StatusCode = 404, Body = \<lparr>chunks = [[1, 2, 3]], ending = EndOfStream\<rparr>\<rparr>) 100
     = Some \<lparr>outcome = Inl (UnexpectedStatus 404),
             body_after = Some \<lparr>chunks = [[1, 2, 3]], ending = EndOfStream\<rparr>\<rparr>
   \<and> (\<exists>b'. speedHTTP True
          (Some \<lparr>StatusCode = 200,
                 Body = \<lparr>chunks = [replicate 60 0x41, replicate 70 0x42], ending = Broken\<rparr>\<rparr>) 100
        = Some \<lparr>outcome = Inr 100, body_after = Some b'\<rparr> \<and> blen b' = 30)
   \<and> (\<exists>b'. speedHTTP True
          (Some \<lparr>StatusCode = 200,
                 Body = \<lparr>chunks = [replicate 20 0x41, replicate 30 0x42], ending = EndOfStream\<rparr>\<rparr>) 0
        = Some \<lparr>outcome = Inr 50, body_after = Some b'\<rparr> \<and> blen b' = 0)"
  using speedHTTP_budget [of "\<lparr>StatusCode = 404, Body = \<lparr>chunks = [[1, 2, 3]], ending = EndOfStream\<rparr>\<rparr>" 100]
    speedHTTP_budget [of "\<lparr>StatusCode = 200,
                 Body = \<lparr>chunks = [replicate 60 0x41, replicate 70 0x42], ending = Broken\<rparr>\<rparr>" 100]
    speedHTTP_budget [of "\<lparr>StatusCode = 200,
                 Body = \<lparr>chunks = [replicate 20 0x41, replicate 30 0x42], ending = EndOfStream\<rparr>\<rparr>" 0]
  by (auto simp: blen_def)

end
